theory Spec2Isabelle
  imports Complex_Main
begin

section \<open>Errors\<close>

text \<open>
  The exceptions the modelled code can raise. A fallible operation returns \<open>Inl\<close> of
  the exception or \<open>Inr\<close> of its result.
\<close>

datatype error = ZeroDivisionError | TypeError | ValueError | IndexError | OverflowError

section \<open>Python numbers\<close>

text \<open>
  The components of an \<^verbatim>\<open>RGB\<close> are Python numbers: an \<^verbatim>\<open>int\<close> (unbounded), or
  a \<^verbatim>\<open>float\<close>, which is a finite binary64 value (given by its exact rational
  value), an infinity or a NaN. A NaN carries the identity of its float object,
  because Python compares the items of a tuple by identity before it compares them by
  value, and a NaN is equal to nothing by value.
\<close>

datatype pynum = PyInt int | PyFloat rat | PosInf | NegInf | NaN nat

text \<open>
  Rounding a rational to the nearest binary64 value, ties to the even significand, as
  float arithmetic rounds an exact result. \<open>int_log2 n\<close> is \<open>\<lfloor>log\<^sub>2 n\<rfloor>\<close> for
  \<open>n \<ge> 1\<close> and \<open>ilog2 a\<close> is \<open>\<lfloor>log\<^sub>2 a\<rfloor>\<close> for a positive rational \<open>a\<close>. The
  significand has 53 bits, the least exponent of the last place is \<open>-1074\<close>, and a
  result of magnitude \<open>2\<^sup>1\<^sup>0\<^sup>2\<^sup>4\<close> or more is an infinity.
\<close>

function int_log2 :: "int \<Rightarrow> int" where
  "int_log2 n = (if n < 2 then 0 else 1 + int_log2 (n div 2))"
  by pat_completeness auto
termination
  by (relation "measure nat") auto

declare int_log2.simps [simp del]

definition ilog2 :: "rat \<Rightarrow> int" where
  "ilog2 a = (if 1 \<le> a then int_log2 \<lfloor>a\<rfloor>
              else - (int_log2 (\<lceil>1 / a\<rceil> - 1) + 1))"

definition pow2 :: "int \<Rightarrow> rat" where
  "pow2 q = (if 0 \<le> q then 2 ^ nat q else 1 / 2 ^ nat (- q))"

definition round_half_even :: "rat \<Rightarrow> int" where
  "round_half_even y =
     (let f = \<lfloor>y\<rfloor>; d = y - of_int f
      in if d < 1 / 2 then f else if 1 / 2 < d then f + 1 else if even f then f else f + 1)"

definition float_round :: "rat \<Rightarrow> pynum" where
  "float_round x =
     (if x = 0 then PyFloat 0
      else
        (let a = \<bar>x\<bar>;
             q = max (ilog2 a - 52) (- 1074);
             r = of_int (round_half_even (a / pow2 q)) * pow2 q
         in if 2 ^ 1024 \<le> r then (if 0 < x then PosInf else NegInf)
            else PyFloat (if 0 < x then r else - r)))"

text \<open>
  The product \<^verbatim>\<open>n * c\<close> of an \<^verbatim>\<open>int\<close> \<open>n\<close> and a number \<open>c\<close>, for an \<open>n\<close>
  that is exactly a float (as \<open>63\<close> is): the exact product for an \<^verbatim>\<open>int\<close>
  \<open>c\<close>, the rounded product for a finite float, and the products of IEEE 754 for an
  infinity or a NaN (the identity of a NaN product plays no role: \<^verbatim>\<open>int\<close> is all
  that reads it).
\<close>

fun py_mult :: "int \<Rightarrow> pynum \<Rightarrow> pynum" where
  "py_mult n (PyInt c) = PyInt (n * c)"
| "py_mult n (PyFloat c) = float_round (of_int n * c)"
| "py_mult n PosInf = (if 0 < n then PosInf else if n < 0 then NegInf else NaN 0)"
| "py_mult n NegInf = (if 0 < n then NegInf else if n < 0 then PosInf else NaN 0)"
| "py_mult n (NaN i) = NaN i"

text \<open>
  Python's \<^verbatim>\<open>int(x)\<close> on a number: truncation towards zero;
  \<^verbatim>\<open>OverflowError\<close> on an infinity and \<^verbatim>\<open>ValueError\<close> on a NaN.
\<close>

fun py_int :: "pynum \<Rightarrow> error + int" where
  "py_int (PyInt n) = Inr n"
| "py_int (PyFloat x) = Inr (if x < 0 then \<lceil>x\<rceil> else \<lfloor>x\<rfloor>)"
| "py_int PosInf = Inl OverflowError"
| "py_int NegInf = Inl OverflowError"
| "py_int (NaN i) = Inl ValueError"

text \<open>
  Python's \<^verbatim>\<open>==\<close> on the items of two tuples: the same object, or equal by
  value. Numbers are compared by their exact values, whatever their types; a NaN is
  equal only to itself, the same object.
\<close>

fun finite_value :: "pynum \<Rightarrow> rat option" where
  "finite_value (PyInt n) = Some (of_int n)"
| "finite_value (PyFloat x) = Some x"
| "finite_value PosInf = None"
| "finite_value NegInf = None"
| "finite_value (NaN i) = None"

definition py_eq_num :: "pynum \<Rightarrow> pynum \<Rightarrow> bool" where
  "py_eq_num x y =
     (case (finite_value x, finite_value y) of
        (Some a, Some b) \<Rightarrow> a = b
      | (None, None) \<Rightarrow> x = y
      | _ \<Rightarrow> False)"

section \<open>Color model\<close>

text \<open>
  A cell color in \<^verbatim>\<open>launchpad.py\<close> is either a plain Python integer (a palette
  intensity, e.g. the \<^verbatim>\<open>0\<close> the buffers are filled with) or an \<^verbatim>\<open>RGB\<close>
  named tuple with fields \<^verbatim>\<open>r, g, b\<close>.
\<close>

datatype color = Palette int | RGB pynum pynum pynum

text \<open>
  \<^verbatim>\<open>color != back_color\<close>: two integers differ by value, an integer and a tuple
  always differ, and two tuples differ when some pair of items is not equal.
\<close>

fun py_ne :: "color \<Rightarrow> color \<Rightarrow> bool" where
  "py_ne (Palette v) (Palette w) = (v \<noteq> w)"
| "py_ne (RGB r g b) (RGB r' g' b') =
     (\<not> (py_eq_num r r' \<and> py_eq_num g g' \<and> py_eq_num b b'))"
| "py_ne (Palette v) (RGB r g b) = True"
| "py_ne (RGB r g b) (Palette v) = True"

type_synonym pos = "int \<times> int"

text \<open>
  A \<^verbatim>\<open>Note\<close> object as it occurs in the lists returned by \<^verbatim>\<open>notes\<close>: its
  \<^verbatim>\<open>pos\<close> and its \<^verbatim>\<open>color\<close>.
\<close>

type_synonym pnote = "pos \<times> color"

definition MAX_BRIGHTNESS :: int where
  "MAX_BRIGHTNESS = 63"

text \<open>
  \<^verbatim>\<open>
  def brightness_of_compon(c):
      scaled = int(self.MAX_BRIGHTNESS * c)
      if scaled < 0:
          return 0
      if scaled > self.MAX_BRIGHTNESS:
          return self.MAX_BRIGHTNESS
      return scaled
  \<close>
\<close>

definition brightness_of_compon :: "pynum \<Rightarrow> error + int" where
  "brightness_of_compon c =
     (case py_int (py_mult MAX_BRIGHTNESS c) of
        Inl err \<Rightarrow> Inl err
      | Inr scaled \<Rightarrow>
          Inr (if scaled < 0 then 0
               else if scaled > MAX_BRIGHTNESS then MAX_BRIGHTNESS
               else scaled))"

text \<open>
  The scaling as the specification words it, for a component of real value \<open>c\<close>:
  \<open>clamp(round(c * MAX_BRIGHTNESS), 0, MAX_BRIGHTNESS)\<close>, with \<open>round\<close> the
  nearest integer (\<open>round x = \<lfloor>x + 1/2\<rfloor>\<close>; how a tie is broken plays no role
  below).
\<close>

definition spec_brightness :: "rat \<Rightarrow> int" where
  "spec_brightness c = max 0 (min MAX_BRIGHTNESS (round (c * of_int MAX_BRIGHTNESS)))"

section \<open>Results and pseudo-random draws\<close>

text \<open>
  The pseudo-random generator is an unbounded supply of draws; \<open>g 0\<close> is the next one.
  \<^verbatim>\<open>random.randint(a, b)\<close> raises \<^verbatim>\<open>ValueError\<close> on an empty range and
  otherwise returns some integer of \<open>[a, b]\<close>; which one is decided by the next draw, and
  every integer of the range is returned for a suitable draw.
\<close>

type_synonym rng = "nat \<Rightarrow> nat"

definition randint :: "int \<Rightarrow> int \<Rightarrow> rng \<Rightarrow> error + (int \<times> rng)" where
  "randint a b g =
     (if b < a then Inl ValueError
      else Inr (a + int (g 0 mod nat (b - a + 1)), \<lambda>n. g (Suc n)))"

text \<open>
  What a call of \<^verbatim>\<open>notes\<close> returns: a list of notes, or \<^verbatim>\<open>None\<close> where the
  method body ends without a \<^verbatim>\<open>return\<close>.
\<close>

datatype pyval = PyNone | NoteList "pnote list"

section \<open>Effect algebra\<close>

text \<open>
  One constructor per class of \<^verbatim>\<open>launchpad.py\<close>, holding the instance attributes.
  \<^item> \<open>Rectangle\<close> holds \<^verbatim>\<open>self._notes\<close>, the list built by the constructor.
  \<^item> \<open>Concurrent\<close> and \<open>Random\<close> hold \<^verbatim>\<open>self.effects\<close>, already padded by
    the constructor; \<open>Random\<close> also holds \<^verbatim>\<open>self.current_effect\<close>, the only
    attribute that \<^verbatim>\<open>notes\<close> assigns.
  \<^item> \<open>PaddedEffect\<close> holds \<^verbatim>\<open>effect\<close>, \<^verbatim>\<open>_length\<close> and \<^verbatim>\<open>_notes\<close>.
  \<^item> \<open>ColorWheel\<close> holds \<^verbatim>\<open>_length\<close>. Its colors come from floating-point
    trigonometry (\<^verbatim>\<open>math.atan2\<close>, \<^verbatim>\<open>colorsys.hsv_to_rgb\<close>) over the other
    attributes; that computation is a parameter of the node, giving for a tick and a
    cell \<open>x\<close>, \<open>y\<close> the color or the exception raised.
\<close>

type_synonym wheel = "int \<Rightarrow> int \<Rightarrow> int \<Rightarrow> error + color"

datatype effect =
    Effect
  | Note pos color
  | Rectangle "pnote list"
  | Translate effect pos
  | Sequential "effect list"
  | Concurrent "effect list"
  | Loop effect int
  | PaddedEffect effect int "pnote list"
  | Random "effect list" "int option"
  | RandomColor effect int int
  | ColorWheel wheel int

text \<open>
  The method \<^verbatim>\<open>length\<close> of every class. \<^verbatim>\<open>Sequential.length\<close> adds the
  children's lengths up from 0; \<^verbatim>\<open>Concurrent.length\<close> and
  \<^verbatim>\<open>Random.length\<close> return 0 for no children and the first child's length
  otherwise.
\<close>

fun length_effect :: "effect \<Rightarrow> int" where
  "length_effect Effect = 1"
| "length_effect (Note p c) = 1"
| "length_effect (Rectangle ns) = 1"
| "length_effect (Translate child off) = length_effect child"
| "length_effect (Sequential es) = foldl (\<lambda>s eff. s + length_effect eff) 0 es"
| "length_effect (Concurrent []) = 0"
| "length_effect (Concurrent (e # es)) = length_effect e"
| "length_effect (Loop child n) = length_effect child * n"
| "length_effect (PaddedEffect e len ns) = len"
| "length_effect (Random [] cur) = 0"
| "length_effect (Random (e # es) cur) = length_effect e"
| "length_effect (RandomColor child low high) = length_effect child"
| "length_effect (ColorWheel w len) = len"

text \<open>\<^verbatim>\<open>Note((n.pos[0] + offset[0], n.pos[1] + offset[1]), n.color)\<close>\<close>

definition translate_note :: "pos \<Rightarrow> pnote \<Rightarrow> pnote" where
  "translate_note off n = ((fst (fst n) + fst off, snd (fst n) + snd off), snd n)"

text \<open>
  The loop of \<^verbatim>\<open>RandomColor.notes\<close> over the child's notes, on note values:
  \<^verbatim>\<open>
  for note in self.child.notes(tick):
      new_note = copy.deepcopy(note)
      new_note.color = random.randint(self.low, self.high)
      lst.append(new_note)
  \<close>
\<close>

fun recolor :: "pnote list \<Rightarrow> int \<Rightarrow> int \<Rightarrow> rng \<Rightarrow> error + (pnote list \<times> rng)" where
  "recolor [] low high g = Inr ([], g)"
| "recolor (n # ns) low high g =
     (case randint low high g of
        Inl err \<Rightarrow> Inl err
      | Inr (v, g') \<Rightarrow>
          (case recolor ns low high g' of
             Inl err \<Rightarrow> Inl err
           | Inr (ms, g'') \<Rightarrow> Inr ((fst n, Palette v) # ms, g'')))"

text \<open>
  Python's list indexing \<^verbatim>\<open>xs[i]\<close>: a negative index counts from the end, an index
  out of range raises \<^verbatim>\<open>IndexError\<close>.
\<close>

definition py_index :: "nat \<Rightarrow> int \<Rightarrow> error + nat" where
  "py_index len i =
     (let j = (if i < 0 then i + int len else i)
      in if 0 \<le> j \<and> j < int len then Inr (nat j) else Inl IndexError)"

text \<open>
  The selection of \<^verbatim>\<open>Random.notes\<close>, for \<open>k\<close> children:
  \<^verbatim>\<open>
  if tick == 0:
      if self.current_effect is None:
          self.current_effect = random.randint(0, len(self.effects) - 1)
      else:
          current_effect = random.randint(0, len(self.effects) - 2)
          if current_effect >= self.current_effect:
              current_effect += 1
          self.current_effect = current_effect
  \<close>
\<close>

definition reselect :: "int \<Rightarrow> int \<Rightarrow> int" where
  "reselect cur d = (if d \<ge> cur then d + 1 else d)"

definition select_effect ::
  "nat \<Rightarrow> int option \<Rightarrow> int \<Rightarrow> rng \<Rightarrow> error + (int option \<times> rng)" where
  "select_effect k cur tick g =
     (if tick = 0 then
        (case cur of
           None \<Rightarrow>
             (case randint 0 (int k - 1) g of
                Inl err \<Rightarrow> Inl err
              | Inr (d, g') \<Rightarrow> Inr (Some d, g'))
         | Some c \<Rightarrow>
             (case randint 0 (int k - 2) g of
                Inl err \<Rightarrow> Inl err
              | Inr (d, g') \<Rightarrow> Inr (Some (reselect c d), g')))
      else Inr (cur, g))"

text \<open>The first exception of a list of results, or all the results.\<close>

fun collect :: "(error + 'a) list \<Rightarrow> error + 'a list" where
  "collect [] = Inr []"
| "collect (Inl err # rs) = Inl err"
| "collect (Inr x # rs) = (case collect rs of Inl err \<Rightarrow> Inl err | Inr xs \<Rightarrow> Inr (x # xs))"

text \<open>
  \<^verbatim>\<open>ColorWheel.notes\<close> walks \<^verbatim>\<open>for x in range(-1, 9): for y in range(-1, 9)\<close>
  and appends one note per cell.
\<close>

definition wheel_notes :: "wheel \<Rightarrow> int \<Rightarrow> error + pnote list" where
  "wheel_notes w tick =
     collect (concat (map (\<lambda>x. map (\<lambda>y.
        (case w tick x y of Inl err \<Rightarrow> Inl err | Inr c \<Rightarrow> Inr ((x, y), c))) [-1..8]) [-1..8]))"

text \<open>
  The method \<^verbatim>\<open>notes\<close> of every class. It takes the node, the tick and the
  generator; it returns the exception raised, or the value returned together with the
  node after the call (only \<^verbatim>\<open>current_effect\<close> of a \<open>Random\<close> node changes) and the
  generator after the call.
  \<^item> \<open>notes_sequential\<close> is the loop of \<^verbatim>\<open>Sequential.notes\<close>:
    \<^verbatim>\<open>
    for eff in self.effects:
        if tick >= eff.length():
            tick -= eff.length()
        else:
            return eff.notes(tick)
    \<close>
    which ends without a \<^verbatim>\<open>return\<close> when every child was skipped.
  \<^item> \<open>notes_concurrent\<close> is the loop of \<^verbatim>\<open>Concurrent.notes\<close>;
    \<^verbatim>\<open>lst.extend(None)\<close> raises \<^verbatim>\<open>TypeError\<close>, as does iterating over
    \<^verbatim>\<open>None\<close> in \<^verbatim>\<open>Translate.notes\<close> and \<^verbatim>\<open>RandomColor.notes\<close>.
  \<^item> \<open>notes_at\<close> is the call \<^verbatim>\<open>self.effects[j].notes(tick)\<close> of
    \<^verbatim>\<open>Random.notes\<close> for an index \<open>j\<close> already resolved by \<open>py_index\<close>.
  \<^item> \<^verbatim>\<open>tick % self.child.length()\<close> in \<^verbatim>\<open>Loop.notes\<close> raises
    \<^verbatim>\<open>ZeroDivisionError\<close> for a child of length 0, as does
    \<^verbatim>\<open>tick / self.length()\<close> in \<^verbatim>\<open>ColorWheel.notes\<close>; on integers Python's
    \<^verbatim>\<open>%\<close> is \<open>mod\<close> (the result has the divisor's sign).
  \<^item> \<^verbatim>\<open>self.effects[None]\<close> in \<^verbatim>\<open>Random.notes\<close> raises \<^verbatim>\<open>TypeError\<close>.
\<close>

fun notes_effect :: "effect \<Rightarrow> int \<Rightarrow> rng \<Rightarrow> error + (pyval \<times> effect \<times> rng)"
and notes_sequential :: "effect list \<Rightarrow> int \<Rightarrow> rng \<Rightarrow> error + (pyval \<times> effect list \<times> rng)"
and notes_concurrent :: "effect list \<Rightarrow> int \<Rightarrow> rng \<Rightarrow> error + (pnote list \<times> effect list \<times> rng)"
and notes_at :: "effect list \<Rightarrow> nat \<Rightarrow> int \<Rightarrow> rng \<Rightarrow> error + (pyval \<times> effect list \<times> rng)"
where
  "notes_effect Effect tick g = Inr (NoteList [], Effect, g)"
| "notes_effect (Note p c) tick g = Inr (NoteList [(p, c)], Note p c, g)"
| "notes_effect (Rectangle ns) tick g = Inr (NoteList ns, Rectangle ns, g)"
| "notes_effect (Translate child off) tick g =
     (case notes_effect child tick g of
        Inl err \<Rightarrow> Inl err
      | Inr (PyNone, child', g') \<Rightarrow> Inl TypeError
      | Inr (NoteList ns, child', g') \<Rightarrow>
          Inr (NoteList (map (translate_note off) ns), Translate child' off, g'))"
| "notes_effect (Sequential es) tick g =
     (case notes_sequential es tick g of
        Inl err \<Rightarrow> Inl err
      | Inr (v, es', g') \<Rightarrow> Inr (v, Sequential es', g'))"
| "notes_effect (Concurrent es) tick g =
     (case notes_concurrent es tick g of
        Inl err \<Rightarrow> Inl err
      | Inr (lst, es', g') \<Rightarrow> Inr (NoteList lst, Concurrent es', g'))"
| "notes_effect (Loop child n) tick g =
     (if length_effect child = 0 then Inl ZeroDivisionError
      else
        (case notes_effect child (tick mod length_effect child) g of
           Inl err \<Rightarrow> Inl err
         | Inr (v, child', g') \<Rightarrow> Inr (v, Loop child' n, g')))"
| "notes_effect (PaddedEffect e len pad) tick g =
     (if tick < length_effect e then
        (case notes_effect e tick g of
           Inl err \<Rightarrow> Inl err
         | Inr (v, e', g') \<Rightarrow> Inr (v, PaddedEffect e' len pad, g'))
      else Inr (NoteList pad, PaddedEffect e len pad, g))"
| "notes_effect (Random es cur) tick g =
     (if length es = 0 then Inr (NoteList [], Random es cur, g)
      else
        (case select_effect (length es) cur tick g of
           Inl err \<Rightarrow> Inl err
         | Inr (None, g') \<Rightarrow> Inl TypeError
         | Inr (Some c, g') \<Rightarrow>
             (case py_index (length es) c of
                Inl err \<Rightarrow> Inl err
              | Inr j \<Rightarrow>
                  if tick \<ge> length_effect (es ! j)
                  then Inr (NoteList [], Random es (Some c), g')
                  else
                    (case notes_at es j tick g' of
                       Inl err \<Rightarrow> Inl err
                     | Inr (v, es', g'') \<Rightarrow> Inr (v, Random es' (Some c), g'')))))"
| "notes_effect (RandomColor child low high) tick g =
     (case notes_effect child tick g of
        Inl err \<Rightarrow> Inl err
      | Inr (PyNone, child', g') \<Rightarrow> Inl TypeError
      | Inr (NoteList ns, child', g') \<Rightarrow>
          (case recolor ns low high g' of
             Inl err \<Rightarrow> Inl err
           | Inr (lst, g'') \<Rightarrow> Inr (NoteList lst, RandomColor child' low high, g'')))"
| "notes_effect (ColorWheel w len) tick g =
     (if len = 0 then Inl ZeroDivisionError
      else
        (case wheel_notes w tick of
           Inl err \<Rightarrow> Inl err
         | Inr lst \<Rightarrow> Inr (NoteList lst, ColorWheel w len, g)))"
| "notes_sequential [] tick g = Inr (PyNone, [], g)"
| "notes_sequential (eff # es) tick g =
     (if tick \<ge> length_effect eff then
        (case notes_sequential es (tick - length_effect eff) g of
           Inl err \<Rightarrow> Inl err
         | Inr (v, es', g') \<Rightarrow> Inr (v, eff # es', g'))
      else
        (case notes_effect eff tick g of
           Inl err \<Rightarrow> Inl err
         | Inr (v, eff', g') \<Rightarrow> Inr (v, eff' # es, g')))"
| "notes_concurrent [] tick g = Inr ([], [], g)"
| "notes_concurrent (eff # es) tick g =
     (case notes_effect eff tick g of
        Inl err \<Rightarrow> Inl err
      | Inr (PyNone, eff', g') \<Rightarrow> Inl TypeError
      | Inr (NoteList ns, eff', g') \<Rightarrow>
          (case notes_concurrent es tick g' of
             Inl err \<Rightarrow> Inl err
           | Inr (lst, es', g'') \<Rightarrow> Inr (ns @ lst, eff' # es', g'')))"
| "notes_at [] j tick g = Inl IndexError"
| "notes_at (eff # es) 0 tick g =
     (case notes_effect eff tick g of
        Inl err \<Rightarrow> Inl err
      | Inr (v, eff', g') \<Rightarrow> Inr (v, eff' # es, g'))"
| "notes_at (eff # es) (Suc j) tick g =
     (case notes_at es j tick g of
        Inl err \<Rightarrow> Inl err
      | Inr (v, es', g') \<Rightarrow> Inr (v, eff # es', g'))"

text \<open>
  The result of a child's \<^verbatim>\<open>notes\<close> seen from its parent: the same exception or
  value, the child after the call put back in its place in the parent.
\<close>

definition in_parent ::
  "(effect \<Rightarrow> effect) \<Rightarrow> error + (pyval \<times> effect \<times> rng) \<Rightarrow> error + (pyval \<times> effect \<times> rng)" where
  "in_parent put r = (case r of Inl err \<Rightarrow> Inl err | Inr (v, e, g) \<Rightarrow> Inr (v, put e, g))"

section \<open>Padding adapter\<close>

text \<open>
  \<^verbatim>\<open>max(effects, key=lambda x: x.length())\<close> keeps the first element whose key is
  the largest.
\<close>

fun py_max_key :: "('a \<Rightarrow> int) \<Rightarrow> 'a \<Rightarrow> 'a list \<Rightarrow> 'a" where
  "py_max_key key best [] = best"
| "py_max_key key best (x # xs) = py_max_key key (if key x > key best then x else best) xs"

text \<open>
  \<^verbatim>\<open>
  def pad_effects(effects, pad_func=lambda x: []):
      if len(effects) == 0:
          return []
      length = max(effects, key=lambda x: x.length()).length()
      return [PaddedEffect(e, length, pad_func(e)) if e.length() < length else e
              for e in effects]
  \<close>
\<close>

definition pad_effects :: "effect list \<Rightarrow> (effect \<Rightarrow> pnote list) \<Rightarrow> effect list" where
  "pad_effects effects pad_func =
     (case effects of
        [] \<Rightarrow> []
      | e0 # rest \<Rightarrow>
          (let len = length_effect (py_max_key length_effect e0 rest)
           in map (\<lambda>e. if length_effect e < len then PaddedEffect e len (pad_func e) else e)
                effects))"

text \<open>The default \<^verbatim>\<open>pad_func\<close>.\<close>

definition default_pad :: "effect \<Rightarrow> pnote list" where
  "default_pad x = []"

text \<open>The constructors that compute their attributes.\<close>

definition Rectangle_init :: "pos \<Rightarrow> pos \<Rightarrow> color \<Rightarrow> effect" where
  "Rectangle_init ll ur c =
     Rectangle (concat (map (\<lambda>x. map (\<lambda>y. ((x, y), c)) [snd ll..snd ur]) [fst ll..fst ur]))"

definition Fullscreen :: "color \<Rightarrow> effect" where
  "Fullscreen c = Rectangle_init (-1, -1) (8, 8) c"

definition Clear :: effect where
  "Clear = Fullscreen (Palette 0)"

definition Concurrent_init :: "effect list \<Rightarrow> effect" where
  "Concurrent_init effects = Concurrent (pad_effects effects default_pad)"

definition Random_init :: "effect list \<Rightarrow> effect" where
  "Random_init effects = Random (pad_effects effects default_pad) None"

section \<open>Render engine\<close>

text \<open>
  The messages handed to \<^verbatim>\<open>self.port.send\<close>, built by
  \<^verbatim>\<open>mido.Message(type='note_on', note=midi_note, velocity=color)\<close> and
  \<^verbatim>\<open>mido.Message(type='sysex', data=prefix + data)\<close>. The port is the list of the
  messages sent so far, oldest first.
\<close>

datatype message = Note_on int int | Sysex "int list"

record launchpad =
  buf :: "color list"
  back_buf :: "color list"
  port :: "message list"

text \<open>
  \<^verbatim>\<open>
  buf_size = 10 * 10
  self.buf = [0 for i in range(buf_size)]
  self.back_buf = [0 for i in range(buf_size)]
  \<close>
\<close>

definition Launchpad_init :: launchpad where
  "Launchpad_init =
     \<lparr>buf = replicate (10 * 10) (Palette 0),
      back_buf = replicate (10 * 10) (Palette 0),
      port = []\<rparr>"

text \<open>
  \<^verbatim>\<open>
  def reset_buf():
      self.buf, self.back_buf = self.back_buf, self.buf
      for i in range(len(self.buf)):
          self.buf[i] = 0
  \<close>
\<close>

definition reset_buf :: "launchpad \<Rightarrow> launchpad" where
  "reset_buf lp =
     lp\<lparr>buf := replicate (length (back_buf lp)) (Palette 0), back_buf := buf lp\<rparr>"

text \<open>\<^verbatim>\<open>midi_note = y * 10 + x + 11\<close>\<close>

definition midi_note_of :: "pos \<Rightarrow> int" where
  "midi_note_of p = snd p * 10 + fst p + 11"

text \<open>
  The body of the loop of \<^verbatim>\<open>draw_effect\<close>, on the buffer:
  \<^verbatim>\<open>
  x, y = note.pos
  midi_note = y * 10 + x + 11
  if midi_note >= 0 and midi_note < len(self.buf):
      self.buf[midi_note] = note.color
  \<close>
\<close>

definition draw_note :: "color list \<Rightarrow> pnote \<Rightarrow> color list" where
  "draw_note b n =
     (let midi_note = midi_note_of (fst n)
      in if midi_note \<ge> 0 \<and> midi_note < int (length b)
         then b[nat midi_note := snd n]
         else b)"

definition draw_notes :: "color list \<Rightarrow> pnote list \<Rightarrow> color list" where
  "draw_notes b ns = foldl draw_note b ns"

text \<open>
  \<^verbatim>\<open>draw_effect(effect, tick)\<close>: \<^verbatim>\<open>for note in effect.notes(tick)\<close> raises
  \<^verbatim>\<open>TypeError\<close> when \<^verbatim>\<open>notes\<close> returned \<^verbatim>\<open>None\<close>.
\<close>

definition draw_effect ::
  "launchpad \<Rightarrow> effect \<Rightarrow> int \<Rightarrow> rng \<Rightarrow> error + (launchpad \<times> effect \<times> rng)" where
  "draw_effect lp e tick g =
     (case notes_effect e tick g of
        Inl err \<Rightarrow> Inl err
      | Inr (PyNone, e', g') \<Rightarrow> Inl TypeError
      | Inr (NoteList ns, e', g') \<Rightarrow> Inr (lp\<lparr>buf := draw_notes (buf lp) ns\<rparr>, e', g'))"

text \<open>
  \<^verbatim>\<open>mido.Message\<close> is the constructor of the MIDI library the engine imports. It
  checks its data bytes: the note and the velocity of a \<^verbatim>\<open>note_on\<close> and every
  byte of the data of a \<^verbatim>\<open>sysex\<close> must lie in \<open>0..127\<close>, and it raises
  \<^verbatim>\<open>ValueError\<close> otherwise.
\<close>

definition data_byte :: "int \<Rightarrow> bool" where
  "data_byte b = (0 \<le> b \<and> b \<le> 127)"

definition mido_note_on :: "int \<Rightarrow> int \<Rightarrow> error + message" where
  "mido_note_on n v =
     (if data_byte n \<and> data_byte v then Inr (Note_on n v) else Inl ValueError)"

definition mido_sysex :: "int list \<Rightarrow> error + message" where
  "mido_sysex d = (if list_all data_byte d then Inr (Sysex d) else Inl ValueError)"

text \<open>
  \<^verbatim>\<open>
  def rgb_message(midi_note, rgb):
      prefix = [0, 32, 41, 2, 16, 11]
      ...
      data = [
          midi_note,
          brightness_of_compon(rgb.r),
          brightness_of_compon(rgb.g),
          brightness_of_compon(rgb.b),
      ]
      return mido.Message(type='sysex', data=prefix + data)
  \<close>
  The three components are scaled in this order; the first exception ends the call.
\<close>

definition rgb_message :: "int \<Rightarrow> pynum \<Rightarrow> pynum \<Rightarrow> pynum \<Rightarrow> error + message" where
  "rgb_message midi_note r g b =
     (case brightness_of_compon r of
        Inl err \<Rightarrow> Inl err
      | Inr br \<Rightarrow>
          (case brightness_of_compon g of
             Inl err \<Rightarrow> Inl err
           | Inr bg \<Rightarrow>
               (case brightness_of_compon b of
                  Inl err \<Rightarrow> Inl err
                | Inr bb \<Rightarrow> mido_sysex ([0, 32, 41, 2, 16, 11] @ [midi_note, br, bg, bb]))))"

text \<open>The message built for one cell: the two branches of \<^verbatim>\<open>isinstance(color, RGB)\<close>.\<close>

fun message_of :: "int \<Rightarrow> color \<Rightarrow> error + message" where
  "message_of midi_note (RGB r g b) = rgb_message midi_note r g b"
| "message_of midi_note (Palette v) = mido_note_on midi_note v"

text \<open>
  \<^verbatim>\<open>
  def write_buf():
      for midi_note, (color, back_color) in enumerate(zip(self.buf, self.back_buf)):
          if color != back_color:
              msg = None
              if isinstance(color, RGB):
                  msg = rgb_message(midi_note, color)
              else:
                  msg = mido.Message(type='note_on', note=midi_note, velocity=color)
              self.port.send(msg)
  \<close>
  \<open>write_buf_from i\<close> is the loop over the rest of the enumeration, \<open>i\<close> the index of
  its first pair. It returns the messages sent, in order, and the exception that ended
  the loop, if one did: the messages sent before an exception stay sent.
\<close>

fun write_buf_from :: "nat \<Rightarrow> (color \<times> color) list \<Rightarrow> message list \<times> error option" where
  "write_buf_from i [] = ([], None)"
| "write_buf_from i ((c, back_c) # rest) =
     (if py_ne c back_c then
        (case message_of (int i) c of
           Inl err \<Rightarrow> ([], Some err)
         | Inr msg \<Rightarrow>
             (case write_buf_from (Suc i) rest of (ms, r) \<Rightarrow> (msg # ms, r)))
      else write_buf_from (Suc i) rest)"

definition write_buf_messages :: "color list \<Rightarrow> color list \<Rightarrow> message list" where
  "write_buf_messages b bb = fst (write_buf_from 0 (zip b bb))"

definition write_buf :: "launchpad \<Rightarrow> launchpad \<times> error option" where
  "write_buf lp =
     (case write_buf_from 0 (zip (buf lp) (back_buf lp)) of
        (ms, r) \<Rightarrow> (lp\<lparr>port := port lp @ ms\<rparr>, r))"

text \<open>
  The loop of \<^verbatim>\<open>play\<close> over the ticks of \<^verbatim>\<open>range(effect.length())\<close>, and
  \<^verbatim>\<open>play\<close> with its final \<^verbatim>\<open>reset_buf(); write_buf()\<close>. An exception ends
  the session. The pacing (\<^verbatim>\<open>time.time\<close>, \<^verbatim>\<open>time.sleep\<close>, the warning printed
  on an overrun) has no effect on the buffers or the messages and is left out.
\<close>

fun play_ticks ::
  "int list \<Rightarrow> launchpad \<Rightarrow> effect \<Rightarrow> rng \<Rightarrow> error + (launchpad \<times> effect \<times> rng)" where
  "play_ticks [] lp e g = Inr (lp, e, g)"
| "play_ticks (i # ticks) lp e g =
     (case draw_effect (reset_buf lp) e i g of
        Inl err \<Rightarrow> Inl err
      | Inr (lp', e', g') \<Rightarrow>
          (case write_buf lp' of
             (lp'', Some err) \<Rightarrow> Inl err
           | (lp'', None) \<Rightarrow> play_ticks ticks lp'' e' g'))"

definition play :: "launchpad \<Rightarrow> effect \<Rightarrow> rng \<Rightarrow> error + (launchpad \<times> effect \<times> rng)" where
  "play lp e g =
     (case play_ticks [0..length_effect e - 1] lp e g of
        Inl err \<Rightarrow> Inl err
      | Inr (lp', e', g') \<Rightarrow>
          (case write_buf (reset_buf lp') of
             (lp'', Some err) \<Rightarrow> Inl err
           | (lp'', None) \<Rightarrow> Inr (lp'', e', g')))"

text \<open>
  The colors whose message can be built, whatever the cell: a palette intensity that is
  a data byte, or an \<^verbatim>\<open>RGB\<close> whose three components are scaled without an
  exception.
\<close>

fun encodable :: "color \<Rightarrow> bool" where
  "encodable (Palette v) = data_byte v"
| "encodable (RGB r g b) =
     (\<not> isl (brightness_of_compon r) \<and> \<not> isl (brightness_of_compon g) \<and>
      \<not> isl (brightness_of_compon b))"

text \<open>The cell a message addresses: the note number of either kind of message.\<close>

fun message_cell :: "message \<Rightarrow> int" where
  "message_cell (Note_on n v) = n"
| "message_cell (Sysex d) = d ! 6"

text \<open>The positions of the 10 by 10 buffer: \<open>x\<close> and \<open>y\<close> in \<open>[-1, 8]\<close>.\<close>

definition addressable :: "pos \<Rightarrow> bool" where
  "addressable p = (-1 \<le> fst p \<and> fst p \<le> 8 \<and> -1 \<le> snd p \<and> snd p \<le> 8)"

section \<open>Note objects in a store\<close>

text \<open>
  \<^verbatim>\<open>Rectangle.notes\<close> returns \<^verbatim>\<open>self._notes\<close> itself, so the notes a parent
  receives are the objects the rectangle keeps. To say what \<^verbatim>\<open>RandomColor.notes\<close>
  does to them, \<^verbatim>\<open>Note\<close> objects live in a store: a reference is an index, the
  store the list of the objects allocated so far, and a list of notes is a list of
  references.
\<close>

type_synonym ref = nat
type_synonym store = "pnote list"

text \<open>
  \<^verbatim>\<open>copy.deepcopy(note)\<close> allocates a new \<^verbatim>\<open>Note\<close> with the same \<^verbatim>\<open>pos\<close>
  and \<^verbatim>\<open>color\<close> (tuples and numbers are immutable and need no copy).
\<close>

definition deepcopy :: "store \<Rightarrow> ref \<Rightarrow> ref \<times> store" where
  "deepcopy h r = (length h, h @ [h ! r])"

text \<open>\<^verbatim>\<open>note.color = c\<close>\<close>

definition set_color :: "store \<Rightarrow> ref \<Rightarrow> color \<Rightarrow> store" where
  "set_color h r c = h[r := (fst (h ! r), c)]"

text \<open>\<^verbatim>\<open>Rectangle.notes\<close>: \<^verbatim>\<open>return self._notes\<close>, the references it keeps.\<close>

definition Rectangle_notes_store :: "ref list \<Rightarrow> int \<Rightarrow> ref list" where
  "Rectangle_notes_store cached tick = cached"

text \<open>
  The loop of \<^verbatim>\<open>RandomColor.notes\<close> over the references the child returned. The
  store and the generator are returned also when \<^verbatim>\<open>randint\<close> raises.
\<close>

fun RandomColor_notes_store ::
  "store \<Rightarrow> ref list \<Rightarrow> int \<Rightarrow> int \<Rightarrow> rng \<Rightarrow> (error + ref list) \<times> store \<times> rng" where
  "RandomColor_notes_store h [] low high g = (Inr [], h, g)"
| "RandomColor_notes_store h (r # rest) low high g =
     (case deepcopy h r of
        (new_note, h1) \<Rightarrow>
          (case randint low high g of
             Inl err \<Rightarrow> (Inl err, h1, g)
           | Inr (v, g') \<Rightarrow>
               (case RandomColor_notes_store (set_color h1 new_note (Palette v)) rest low high g' of
                  (Inl err, h2, g2) \<Rightarrow> (Inl err, h2, g2)
                | (Inr lst, h2, g2) \<Rightarrow> (Inr (new_note # lst), h2, g2))))"

section \<open>Properties of the float rounding\<close>

text \<open>
  \<open>int_log2\<close> and \<open>ilog2\<close> are the integer parts of the binary logarithm.
  For \<open>x \<noteq> 0\<close>, a finite \<open>float_round x\<close> is a multiple \<open>m * 2\<^sup>q\<close> of the
  unit in the last place of \<open>x\<close>, with \<open>\<bar>m\<bar> \<le> 2\<^sup>5\<^sup>3\<close>, at most half a unit
  away from \<open>x\<close>; a tie goes to the even \<open>m\<close> (\<open>round_half_even\<close>). A value
  below \<open>2\<^sup>1\<^sup>0\<^sup>2\<^sup>4\<close> that is such a multiple is kept as it is.
\<close>

lemma int_log2_bounds:
  "1 \<le> n \<Longrightarrow> 0 \<le> int_log2 n \<and> 2 ^ nat (int_log2 n) \<le> n \<and> n < 2 * 2 ^ nat (int_log2 n)"
proof (induction n rule: int_log2.induct)
  case (1 n)
  show ?case
  proof (cases "n < 2")
    case True
    with "1.prems" have "n = 1" by simp
    then show ?thesis by (simp add: int_log2.simps)
  next
    case False
    then have h: "1 \<le> n div 2" by simp
    define k where "k = int_log2 (n div 2)"
    from "1.IH" [OF False h] have k: "0 \<le> k" and lo: "2 ^ nat k \<le> n div 2"
      and hi: "n div 2 < 2 * 2 ^ nat k" by (simp_all add: k_def)
    from False have il: "int_log2 n = 1 + k" by (simp add: int_log2.simps [of n] k_def)
    from k have nk: "nat (1 + k) = Suc (nat k)" by simp
    have "2 * (n div 2) \<le> n" by simp
    with lo have a: "2 * 2 ^ nat k \<le> n" by linarith
    have "n < 2 * (n div 2) + 2" by presburger
    with hi have b: "n < 2 * (2 * 2 ^ nat k)" by linarith
    from k a b show ?thesis by (simp add: il nk)
  qed
qed

lemma pow2_pos: "0 < pow2 q"
  by (simp add: pow2_def)

lemma pow2_Suc: "pow2 (q + 1) = 2 * pow2 q"
proof (cases "0 \<le> q")
  case True
  then show ?thesis by (simp add: pow2_def nat_add_distrib)
next
  case False
  then have "nat (- q) = Suc (nat (- (q + 1)))" by simp
  with False show ?thesis by (simp add: pow2_def)
qed

lemma pow2_nat: "0 \<le> k \<Longrightarrow> pow2 k = 2 ^ nat k"
  by (simp add: pow2_def)

lemma pow2_neg: "0 \<le> k \<Longrightarrow> pow2 (- k) = 1 / 2 ^ nat k"
  by (cases "k = 0") (simp_all add: pow2_def)

lemma ilog2_bounds:
  assumes "0 < a"
  shows "pow2 (ilog2 a) \<le> a \<and> a < 2 * pow2 (ilog2 a)"
proof (cases "1 \<le> a")
  case True
  then have f: "1 \<le> \<lfloor>a\<rfloor>" by simp
  define e where "e = int_log2 \<lfloor>a\<rfloor>"
  from int_log2_bounds [OF f] have e: "0 \<le> e" and lo: "2 ^ nat e \<le> \<lfloor>a\<rfloor>"
    and hi: "\<lfloor>a\<rfloor> < 2 * 2 ^ nat e" by (simp_all add: e_def)
  from lo have "of_int (2 ^ nat e) \<le> (of_int \<lfloor>a\<rfloor> :: rat)" by (simp only: of_int_le_iff)
  also have "\<dots> \<le> a" by simp
  finally have a: "(2 :: rat) ^ nat e \<le> a" by simp
  from hi have "\<lfloor>a\<rfloor> + 1 \<le> 2 * 2 ^ nat e" by simp
  then have "(of_int (\<lfloor>a\<rfloor> + 1) :: rat) \<le> of_int (2 * 2 ^ nat e)" by (simp only: of_int_le_iff)
  moreover have "a < of_int (\<lfloor>a\<rfloor> + 1)" by linarith
  ultimately have b: "a < 2 * 2 ^ nat e" by simp
  from True e a b show ?thesis by (simp add: ilog2_def e_def [symmetric] pow2_nat)
next
  case False
  with assms have inv: "1 < 1 / a" by (simp add: field_simps)
  define N where "N = \<lceil>1 / a\<rceil>"
  from inv have N2: "2 \<le> N" unfolding N_def by linarith
  then have N1: "1 \<le> N - 1" by simp
  define j where "j = int_log2 (N - 1)"
  from int_log2_bounds [OF N1] have j: "0 \<le> j" and lo: "2 ^ nat j \<le> N - 1"
    and hi: "N - 1 < 2 * 2 ^ nat j" by (simp_all add: j_def)
  have il: "ilog2 a = - (j + 1)" using False by (simp add: ilog2_def j_def N_def)
  have pe: "pow2 (ilog2 a) = 1 / (2 * 2 ^ nat j)"
    using j pow2_neg [of "j + 1"] by (simp add: il nat_add_distrib)
  from hi have "N \<le> 2 * 2 ^ nat j" by simp
  then have "(of_int N :: rat) \<le> of_int (2 * 2 ^ nat j)" by (simp only: of_int_le_iff)
  moreover have "1 / a \<le> of_int N" unfolding N_def by simp
  ultimately have "1 / a \<le> 2 * 2 ^ nat j" by simp
  with assms have a: "1 / (2 * 2 ^ nat j) \<le> a" by (simp add: field_simps)
  from lo have "(of_int (2 ^ nat j) :: rat) \<le> of_int (N - 1)" by (simp only: of_int_le_iff)
  moreover have "of_int (N - 1) < 1 / a" unfolding N_def by linarith
  ultimately have "(2 :: rat) ^ nat j < 1 / a" by simp
  with assms have b: "a < 1 / 2 ^ nat j" by (simp add: field_simps)
  from a b show ?thesis by (simp add: pe)
qed

lemma round_half_even_near: "\<bar>of_int (round_half_even y) - y\<bar> \<le> 1 / 2"
proof -
  define f where "f = \<lfloor>y\<rfloor>"
  define d where "d = y - of_int f"
  have d: "0 \<le> d" "d < 1" unfolding d_def f_def by linarith+
  have y: "y = of_int f + d" by (simp add: d_def)
  have r: "round_half_even y =
     (if d < 1 / 2 then f else if 1 / 2 < d then f + 1 else if even f then f else f + 1)"
    by (simp add: round_half_even_def Let_def f_def d_def)
  have "\<bar>of_int (round_half_even y) - (of_int f + d)\<bar> \<le> 1 / 2"
    unfolding r using d by auto
  then show ?thesis by (simp add: d_def)
qed

lemma float_round_nearest:
  assumes "x \<noteq> 0" and "float_round x = PyFloat r"
  shows "\<exists>m. r = of_int m * pow2 (max (ilog2 \<bar>x\<bar> - 52) (- 1074)) \<and> \<bar>m\<bar> \<le> 2 ^ 53 \<and>
           \<bar>r - x\<bar> \<le> pow2 (max (ilog2 \<bar>x\<bar> - 52) (- 1074)) / 2"
proof -
  define a where "a = \<bar>x\<bar>"
  define q where "q = max (ilog2 a - 52) (- 1074)"
  define m where "m = round_half_even (a / pow2 q)"
  have a: "0 < a" using assms(1) by (simp add: a_def)
  have pq: "0 < pow2 q" by (rule pow2_pos)
  from assms have r: "r = (if 0 < x then of_int m * pow2 q else - (of_int m * pow2 q))"
    by (simp add: float_round_def Let_def a_def q_def m_def split: if_splits)
  have near: "\<bar>of_int m - a / pow2 q\<bar> \<le> 1 / 2"
    unfolding m_def by (rule round_half_even_near)
  have "of_int m * pow2 q - a = (of_int m - a / pow2 q) * pow2 q"
    using pq by (simp add: left_diff_distrib)
  then have "\<bar>of_int m * pow2 q - a\<bar> = \<bar>of_int m - a / pow2 q\<bar> * \<bar>pow2 q\<bar>"
    by (simp only: abs_mult)
  also have "\<dots> = \<bar>of_int m - a / pow2 q\<bar> * pow2 q"
    using pq by simp
  also have "\<dots> \<le> 1 / 2 * pow2 q"
    using near pq by (intro mult_right_mono) simp_all
  finally have err: "\<bar>of_int m * pow2 q - a\<bar> \<le> pow2 q / 2" by simp
  have "a < 2 ^ 53 * pow2 q"
  proof -
    have "ilog2 a + 1 \<le> q + 53" by (simp add: q_def)
    then obtain j where j: "q + 53 = ilog2 a + 1 + int j"
      using zle_iff_zadd by blast
    have up: "pow2 (t + int n) = 2 ^ n * pow2 t" for t n
    proof (induction n)
      case 0
      then show ?case by simp
    next
      case (Suc n)
      have "t + int (Suc n) = (t + int n) + 1" by simp
      then have "pow2 (t + int (Suc n)) = pow2 ((t + int n) + 1)" by (simp only:)
      also have "\<dots> = 2 * pow2 (t + int n)" by (rule pow2_Suc)
      finally show ?case by (simp add: Suc.IH)
    qed
    have "a < 2 * pow2 (ilog2 a)" using ilog2_bounds [OF a] by simp
    also have "\<dots> = pow2 (ilog2 a + 1)" by (simp add: pow2_Suc)
    also have "\<dots> \<le> 2 ^ j * pow2 (ilog2 a + 1)" using pow2_pos [of "ilog2 a + 1"] by simp
    also have "\<dots> = pow2 (q + 53)" by (simp add: j up)
    also have "\<dots> = 2 ^ 53 * pow2 q" using up [of q 53] by simp
    finally show ?thesis .
  qed
  then have "a / pow2 q < 2 ^ 53" using pq by (simp add: field_simps)
  with near have "(of_int m :: rat) < 2 ^ 53 + 1" by linarith
  then have "(of_int m :: rat) < of_int (2 ^ 53 + 1)" by simp
  then have "m < 2 ^ 53 + 1" by (simp only: of_int_less_iff)
  moreover have "0 \<le> m"
  proof -
    have "0 \<le> a / pow2 q" using a pq by simp
    with near have "(- 1 :: rat) < of_int m" by linarith
    then show ?thesis by linarith
  qed
  ultimately have mb: "\<bar>m\<bar> \<le> 2 ^ 53" by simp
  show ?thesis
  proof (cases "0 < x")
    case True
    with r err mb show ?thesis
      by (intro exI [of _ m]) (simp add: a_def q_def)
  next
    case False
    with assms(1) have neg: "x < 0" by simp
    from neg have "\<bar>- (of_int m * pow2 q) - x\<bar> = \<bar>of_int m * pow2 q - a\<bar>"
      unfolding a_def by (simp add: abs_if)
    with err have "\<bar>- (of_int m * pow2 q) - x\<bar> \<le> pow2 q / 2" by simp
    with False r mb show ?thesis
      by (intro exI [of _ "- m"]) (simp add: a_def q_def)
  qed
qed

lemma round_half_even_of_int: "round_half_even (of_int k) = k"
  by (simp add: round_half_even_def)

lemma float_round_exact:
  assumes "x = of_int k * pow2 (max (ilog2 \<bar>x\<bar> - 52) (- 1074))" and "\<bar>x\<bar> < 2 ^ 1024"
  shows "float_round x = PyFloat x"
proof (cases "x = 0")
  case True
  then show ?thesis by (simp add: float_round_def)
next
  case False
  define q where "q = max (ilog2 \<bar>x\<bar> - 52) (- 1074)"
  have pq: "0 < pow2 q" by (rule pow2_pos)
  from assms(1) have x: "x = of_int k * pow2 q" by (simp add: q_def)
  then have "\<bar>x\<bar> = of_int \<bar>k\<bar> * pow2 q" using pq by (simp add: abs_mult)
  then have "\<bar>x\<bar> / pow2 q = of_int \<bar>k\<bar>" using pq by simp
  then have m: "round_half_even (\<bar>x\<bar> / pow2 q) = \<bar>k\<bar>"
    by (simp only: round_half_even_of_int)
  have r: "of_int \<bar>k\<bar> * pow2 q = \<bar>x\<bar>" using x pq by (simp add: abs_mult)
  have small: "\<not> 2 ^ 1024 \<le> \<bar>x\<bar>" using assms(2) by simp
  have "float_round x = PyFloat (if 0 < x then \<bar>x\<bar> else - \<bar>x\<bar>)"
    unfolding float_round_def Let_def q_def [symmetric] m r using False small
    by (simp only: if_False)
  then show ?thesis by (simp add: abs_if)
qed

section \<open>Properties of the color model\<close>

text \<open>
  The rounding of the float product at two inputs: a product that is a float is kept,
  and a tie goes to the even significand. The float nearest to \<open>1/63\<close> has the exact
  product \<open>1 - 2\<^sup>-\<^sup>5\<^sup>4\<close> with 63, which rounds to 1, so the brightness of
  that component is 1 and not 0.
\<close>

lemma float_round_exact_example: "float_round (189 / 8) = PyFloat (189 / 8)"
  by code_simp

lemma float_round_ties_to_even:
  "float_round (63 * (285942833483841 / 18014398509481984)) = PyFloat 1"
  by code_simp

lemma brightness_nearest_1_63:
  "brightness_of_compon (PyFloat (285942833483841 / 18014398509481984)) = Inr 1"
  by code_simp

lemma brightness_of_scaled:
  "py_int (py_mult MAX_BRIGHTNESS c) = Inr s \<Longrightarrow>
   brightness_of_compon c = Inr (if s < 0 then 0 else if 63 < s then 63 else s)"
  by (simp add: brightness_of_compon_def MAX_BRIGHTNESS_def)

lemma brightness_bounds: "brightness_of_compon c = Inr v \<Longrightarrow> 0 \<le> v \<and> v \<le> 63"
  by (auto simp: brightness_of_compon_def MAX_BRIGHTNESS_def split: sum.splits if_splits)

lemma clamp_trunc:
  assumes "s = (if p < 0 then \<lceil>p\<rceil> else \<lfloor>p :: rat\<rfloor>)"
  shows "(if s < 0 then 0 else if 63 < s then 63 else s) =
         (if p < 0 then 0 else if 63 \<le> p then 63 else \<lfloor>p\<rfloor>)"
proof -
  consider "p < 0" | "0 \<le> p" "p < 63" | "63 \<le> p" by linarith
  then show ?thesis
  proof cases
    case 1
    then have "\<lceil>p\<rceil> \<le> 0" by (simp add: ceiling_le_zero)
    with 1 assms have "s \<le> 0" by simp
    then have "(if s < 0 then 0 else if 63 < s then 63 else s) = 0" by auto
    with 1 show ?thesis by simp
  next
    case 2
    then have "0 \<le> \<lfloor>p\<rfloor>" and "\<lfloor>p\<rfloor> < 63" by (simp_all add: floor_less_iff)
    with 2 assms have "0 \<le> s" "s < 63" and sp: "s = \<lfloor>p\<rfloor>" by simp_all
    then have "(if s < 0 then 0 else if 63 < s then 63 else s) = s" by auto
    with 2 sp show ?thesis by simp
  next
    case 3
    then have "63 \<le> \<lfloor>p\<rfloor>" by (simp add: le_floor_iff)
    with 3 assms have "63 \<le> s" by simp
    then have "(if s < 0 then 0 else if 63 < s then 63 else s) = 63" by auto
    with 3 show ?thesis by simp
  qed
qed

text \<open>
  C2, as the specification states it: the brightness of a component \<open>c\<close> is
  \<open>clamp(round(c * 63), 0, 63)\<close>, and no input fails. The code truncates instead of
  rounding: for \<open>c = 3/8\<close> the product is \<open>23.625\<close>, a float, which the code
  turns into 23 and the nearest integer is 24. An infinite component raises
  \<^verbatim>\<open>OverflowError\<close> and a NaN raises \<^verbatim>\<open>ValueError\<close>: they are not clamped.
\<close>

theorem brightness_not_rounded:
  "brightness_of_compon (PyFloat (3 / 8)) = Inr 23 \<and> spec_brightness (3 / 8) = 24 \<and>
   brightness_of_compon PosInf = Inl OverflowError \<and>
   brightness_of_compon (NaN 0) = Inl ValueError"
  by code_simp

text \<open>
  C2, amended: the brightness is the product \<^verbatim>\<open>MAX_BRIGHTNESS * c\<close>, as Python
  computes it (exact for an \<^verbatim>\<open>int\<close>, rounded to the nearest float for a float),
  truncated towards zero and clamped into \<open>[0, 63]\<close>: 0 for a negative product, 63
  for a product of 63 or more, and the integer part of the product in between. An
  infinite product raises \<^verbatim>\<open>OverflowError\<close> and a NaN product raises
  \<^verbatim>\<open>ValueError\<close>.
\<close>

theorem brightness_truncates:
  "brightness_of_compon c =
     (case py_mult MAX_BRIGHTNESS c of
        PyInt p \<Rightarrow> Inr (if p < 0 then 0 else if 63 \<le> p then 63 else p)
      | PyFloat p \<Rightarrow> Inr (if p < 0 then 0 else if 63 \<le> p then 63 else \<lfloor>p\<rfloor>)
      | PosInf \<Rightarrow> Inl OverflowError
      | NegInf \<Rightarrow> Inl OverflowError
      | NaN i \<Rightarrow> Inl ValueError)"
proof (cases "py_mult MAX_BRIGHTNESS c")
  case (PyInt p)
  then have "brightness_of_compon c = Inr (if p < 0 then 0 else if 63 < p then 63 else p)"
    by (simp add: brightness_of_scaled)
  also have "(if p < 0 then 0 else if 63 < p then 63 else p) =
             (if p < 0 then 0 else if 63 \<le> p then 63 else p)" by auto
  finally show ?thesis by (simp only: PyInt pynum.case)
next
  case (PyFloat p)
  define s where "s = (if p < 0 then \<lceil>p\<rceil> else \<lfloor>p\<rfloor>)"
  from PyFloat have "py_int (py_mult MAX_BRIGHTNESS c) = Inr s" by (simp add: s_def)
  then have "brightness_of_compon c = Inr (if s < 0 then 0 else if 63 < s then 63 else s)"
    by (rule brightness_of_scaled)
  also note clamp_trunc [OF s_def]
  finally show ?thesis by (simp only: PyFloat pynum.case)
next
  case PosInf
  then show ?thesis by (simp add: brightness_of_compon_def)
next
  case NegInf
  then show ?thesis by (simp add: brightness_of_compon_def)
next
  case (NaN i)
  then show ?thesis by (simp add: brightness_of_compon_def)
qed

section \<open>Properties of the effect algebra\<close>

subsection \<open>Sequential\<close>

lemma foldl_add_lengths:
  "foldl (\<lambda>s eff. s + length_effect eff) s0 es = s0 + sum_list (map length_effect es)"
  by (induction es arbitrary: s0) simp_all

lemma length_Sequential: "length_effect (Sequential es) = sum_list (map length_effect es)"
  by (simp add: foldl_add_lengths)

lemma notes_sequential_past_end:
  "\<forall>e \<in> set es. 0 \<le> length_effect e \<Longrightarrow> sum_list (map length_effect es) \<le> tick \<Longrightarrow>
   notes_sequential es tick g = Inr (PyNone, es, g)"
proof (induction es arbitrary: tick)
  case Nil
  then show ?case by simp
next
  case (Cons e es)
  from Cons.prems have e: "0 \<le> length_effect e" and rest: "\<forall>x \<in> set es. 0 \<le> length_effect x"
    by simp_all
  from rest have "0 \<le> sum_list (map length_effect es)"
    by (induction es) auto
  with Cons.prems(2) have ge: "length_effect e \<le> tick" by simp
  from Cons.prems(2) have "sum_list (map length_effect es) \<le> tick - length_effect e" by simp
  with Cons.IH rest have "notes_sequential es (tick - length_effect e) g = Inr (PyNone, es, g)"
    by blast
  with ge show ?case by simp
qed

text \<open>
  C3: for children of non-negative length and a tick at or beyond the sum of their
  lengths (in particular for no children at all), \<^verbatim>\<open>Sequential.notes\<close> should
  return the empty list. The loop ends without a \<^verbatim>\<open>return\<close>, so the call returns
  \<^verbatim>\<open>None\<close>, which is not the empty list: \<^verbatim>\<open>draw_effect\<close> raises
  \<^verbatim>\<open>TypeError\<close> on it.
\<close>

theorem sequential_past_end_is_None:
  assumes "\<forall>e \<in> set es. 0 \<le> length_effect e" and "length_effect (Sequential es) \<le> tick"
  shows "notes_effect (Sequential es) tick g = Inr (PyNone, Sequential es, g) \<and>
         PyNone \<noteq> NoteList [] \<and>
         draw_effect lp (Sequential es) tick g = Inl TypeError"
  using assms notes_sequential_past_end [of es tick g]
  by (simp add: length_Sequential draw_effect_def del: length_effect.simps(5))

theorem sequential_past_end_is_None_witness:
  "notes_effect (Sequential []) 0 (\<lambda>n. 0) = Inr (PyNone, Sequential [], \<lambda>n. 0) \<and>
   notes_effect (Sequential [Note (0, 0) (Palette 1)]) 1 (\<lambda>n. 0) =
     Inr (PyNone, Sequential [Note (0, 0) (Palette 1)], \<lambda>n. 0) \<and>
   draw_effect Launchpad_init (Sequential []) 0 (\<lambda>n. 0) = Inl TypeError"
  using sequential_past_end_is_None [of "[]" 0 "\<lambda>n. 0" Launchpad_init]
    sequential_past_end_is_None [of "[Note (0, 0) (Palette 1)]" 1 "\<lambda>n. 0" Launchpad_init]
  by simp

text \<open>
  C6: \<open>Sequential [a, b]\<close> lasts \<open>length a + length b\<close> ticks; a tick below
  \<open>length a\<close> is rendered by \<open>a\<close>, and a tick from \<open>length a\<close> up to
  \<open>length a + length b\<close> is rendered by \<open>b\<close> at \<open>tick - length a\<close>.
\<close>

theorem sequence_of_two:
  "length_effect (Sequential [a, b]) = length_effect a + length_effect b \<and>
   (tick < length_effect a \<longrightarrow>
      notes_effect (Sequential [a, b]) tick g =
        in_parent (\<lambda>a'. Sequential [a', b]) (notes_effect a tick g)) \<and>
   (length_effect a \<le> tick \<and> tick < length_effect a + length_effect b \<longrightarrow>
      notes_effect (Sequential [a, b]) tick g =
        in_parent (\<lambda>b'. Sequential [a, b']) (notes_effect b (tick - length_effect a) g))"
  by (simp add: in_parent_def split: sum.splits prod.splits)

theorem sequence_of_two_witness:
  "notes_effect (Sequential [Note (0, 0) (Palette 1), Note (1, 1) (Palette 2)]) 0 (\<lambda>n. 0) =
     Inr (NoteList [((0, 0), Palette 1)],
          Sequential [Note (0, 0) (Palette 1), Note (1, 1) (Palette 2)], \<lambda>n. 0) \<and>
   notes_effect (Sequential [Note (0, 0) (Palette 1), Note (1, 1) (Palette 2)]) 1 (\<lambda>n. 0) =
     Inr (NoteList [((1, 1), Palette 2)],
          Sequential [Note (0, 0) (Palette 1), Note (1, 1) (Palette 2)], \<lambda>n. 0) \<and>
   length_effect (Sequential [Note (0, 0) (Palette 1), Note (1, 1) (Palette 2)]) = 2"
  using sequence_of_two [of "Note (0, 0) (Palette 1)" "Note (1, 1) (Palette 2)" 0 "\<lambda>n. 0"]
    sequence_of_two [of "Note (0, 0) (Palette 1)" "Note (1, 1) (Palette 2)" 1 "\<lambda>n. 0"]
  by (simp add: in_parent_def)

subsection \<open>Loop\<close>

text \<open>
  C9: \<open>Loop a n\<close> lasts \<open>length a * n\<close> ticks, and at every tick it renders \<open>a\<close>
  at \<open>tick mod length a\<close>. For a child of length 0 the remainder
  \<^verbatim>\<open>tick % 0\<close> raises \<^verbatim>\<open>ZeroDivisionError\<close>.
\<close>

theorem loop_contract:
  "length_effect (Loop a n) = length_effect a * n \<and>
   notes_effect (Loop a n) tick g =
     (if length_effect a = 0 then Inl ZeroDivisionError
      else in_parent (\<lambda>a'. Loop a' n) (notes_effect a (tick mod length_effect a) g))"
  by (simp add: in_parent_def split: sum.splits prod.splits)

subsection \<open>Padding\<close>

lemma py_max_key_Max:
  "key (py_max_key key best xs) = Max (key ` set (best # xs))"
proof (induction xs arbitrary: best)
  case Nil
  then show ?case by simp
next
  case (Cons x xs)
  have "key (py_max_key key best (x # xs)) =
        Max (key ` set ((if key x > key best then x else best) # xs))"
    using Cons.IH by simp
  also have "\<dots> = Max (insert (max (key best) (key x)) (key ` set xs))"
    by (simp add: max_def)
  also have "\<dots> = Max (key ` set (best # x # xs))"
  proof (cases "xs = []")
    case True
    then show ?thesis by (simp add: max.commute)
  next
    case False
    then show ?thesis by (simp add: max.assoc)
  qed
  finally show ?case .
qed

lemma pad_effects_map:
  "effects \<noteq> [] \<Longrightarrow>
   pad_effects effects pad_func =
     map (\<lambda>e. if length_effect e < Max (length_effect ` set effects)
              then PaddedEffect e (Max (length_effect ` set effects)) (pad_func e) else e)
       effects"
  by (cases effects) (simp_all add: pad_effects_def Let_def py_max_key_Max del: py_max_key.simps)

text \<open>
  C7: for a non-empty group, the target length of \<open>pad_effects\<close> is the largest length
  of the group and every returned effect has that length. An effect \<open>e\<close> shorter than
  the target is wrapped in a \<open>PaddedEffect\<close>, which renders \<open>e\<close> at a tick below the
  length of \<open>e\<close> and returns the pad value \<open>pad_func e\<close> at any other tick; an effect
  of the target length is returned as it is. The default pad value is the empty list.
\<close>

theorem pad_effects_contract:
  assumes "effects \<noteq> []"
  shows
    "length (pad_effects effects pad_func) = length effects \<and>
     (\<forall>p \<in> set (pad_effects effects pad_func).
        length_effect p = Max (length_effect ` set effects)) \<and>
     (\<forall>i < length effects.
        (length_effect (effects ! i) < Max (length_effect ` set effects) \<longrightarrow>
           pad_effects effects pad_func ! i =
             PaddedEffect (effects ! i) (Max (length_effect ` set effects)) (pad_func (effects ! i)) \<and>
           (\<forall>tick g. tick < length_effect (effects ! i) \<longrightarrow>
              notes_effect (pad_effects effects pad_func ! i) tick g =
                in_parent (\<lambda>e'. PaddedEffect e' (Max (length_effect ` set effects)) (pad_func (effects ! i)))
                  (notes_effect (effects ! i) tick g)) \<and>
           (\<forall>tick g. length_effect (effects ! i) \<le> tick \<longrightarrow>
              notes_effect (pad_effects effects pad_func ! i) tick g =
                Inr (NoteList (pad_func (effects ! i)), pad_effects effects pad_func ! i, g))) \<and>
        (\<not> length_effect (effects ! i) < Max (length_effect ` set effects) \<longrightarrow>
           pad_effects effects pad_func ! i = effects ! i)) \<and>
     (\<forall>e. default_pad e = [])"
proof (intro conjI ballI allI impI)
  let ?T = "Max (length_effect ` set effects)"
  note pm = pad_effects_map [OF assms, of pad_func]
  show "length (pad_effects effects pad_func) = length effects" by (simp add: pm)
  show "\<And>e. default_pad e = []" by (simp add: default_pad_def)
  {
    fix p assume "p \<in> set (pad_effects effects pad_func)"
    then obtain e where e: "e \<in> set effects"
      and p: "p = (if length_effect e < ?T then PaddedEffect e ?T (pad_func e) else e)"
      unfolding pm by auto
    from e have "length_effect e \<le> ?T" by simp
    with p show "length_effect p = ?T" by (cases "length_effect e < ?T") simp_all
  }
  {
    fix i assume i: "i < length effects"
    {
      assume short: "length_effect (effects ! i) < ?T"
      with i show padded: "pad_effects effects pad_func ! i =
          PaddedEffect (effects ! i) ?T (pad_func (effects ! i))"
        by (simp add: pm)
      {
        fix tick g assume "tick < length_effect (effects ! i)"
        then show "notes_effect (pad_effects effects pad_func ! i) tick g =
            in_parent (\<lambda>e'. PaddedEffect e' ?T (pad_func (effects ! i)))
              (notes_effect (effects ! i) tick g)"
          unfolding padded by (simp add: in_parent_def split: sum.splits prod.splits)
      }
      {
        fix tick g assume "length_effect (effects ! i) \<le> tick"
        then show "notes_effect (pad_effects effects pad_func ! i) tick g =
            Inr (NoteList (pad_func (effects ! i)), pad_effects effects pad_func ! i, g)"
          unfolding padded by simp
      }
    }
    {
      assume "\<not> length_effect (effects ! i) < ?T"
      with i show "pad_effects effects pad_func ! i = effects ! i" by (simp add: pm)
    }
  }
qed

theorem pad_effects_contract_witness:
  "pad_effects [Note (0, 0) (Palette 1),
                Sequential [Note (1, 1) (Palette 2), Note (2, 2) (Palette 3)]] default_pad =
     [PaddedEffect (Note (0, 0) (Palette 1)) 2 [],
      Sequential [Note (1, 1) (Palette 2), Note (2, 2) (Palette 3)]] \<and>
   notes_effect (PaddedEffect (Note (0, 0) (Palette 1)) 2 []) 0 (\<lambda>n. 0) =
     Inr (NoteList [((0, 0), Palette 1)], PaddedEffect (Note (0, 0) (Palette 1)) 2 [], \<lambda>n. 0) \<and>
   notes_effect (PaddedEffect (Note (0, 0) (Palette 1)) 2 []) 1 (\<lambda>n. 0) =
     Inr (NoteList [], PaddedEffect (Note (0, 0) (Palette 1)) 2 [], \<lambda>n. 0)"
  using pad_effects_contract
    [of "[Note (0, 0) (Palette 1), Sequential [Note (1, 1) (Palette 2), Note (2, 2) (Palette 3)]]"
        default_pad]
  by (simp add: pad_effects_def default_pad_def)

subsection \<open>Random\<close>

lemma randint_range:
  "a \<le> b \<Longrightarrow> \<exists>d. randint a b g = Inr (d, \<lambda>n. g (Suc n)) \<and> a \<le> d \<and> d \<le> b"
proof -
  assume ab: "a \<le> b"
  define m where "m = g 0 mod nat (b - a + 1)"
  have "m < nat (b - a + 1)" unfolding m_def using ab by simp
  then have "int m \<le> b - a" using ab by linarith
  moreover have "randint a b g = Inr (a + int m, \<lambda>n. g (Suc n))"
    using ab by (simp add: randint_def m_def)
  ultimately show ?thesis by simp
qed

lemma randint_reaches:
  "a \<le> d \<Longrightarrow> d \<le> b \<Longrightarrow> g 0 = nat (d - a) \<Longrightarrow> randint a b g = Inr (d, \<lambda>n. g (Suc n))"
  by (simp add: randint_def)

lemma randint_empty: "b < a \<Longrightarrow> randint a b g = Inl ValueError"
  by (simp add: randint_def)

lemma reselect_bij:
  assumes "0 \<le> c" "c < k"
  shows "bij_betw (reselect c) {0..k - 2} ({0..k - 1} - {c})"
proof (rule bij_betw_byWitness [where f' = "\<lambda>j. if j > c then j - 1 else j"])
  show "\<forall>d\<in>{0..k - 2}. (if c < reselect c d then reselect c d - 1 else reselect c d) = d"
    by (auto simp: reselect_def)
  show "\<forall>j\<in>{0..k - 1} - {c}. reselect c (if c < j then j - 1 else j) = j"
    by (auto simp: reselect_def)
  show "reselect c ` {0..k - 2} \<subseteq> {0..k - 1} - {c}"
    using assms by (auto simp: reselect_def)
  show "(\<lambda>j. if c < j then j - 1 else j) ` ({0..k - 1} - {c}) \<subseteq> {0..k - 2}"
    using assms by auto
qed

lemma notes_at_length:
  "notes_at es j tick g = Inr (v, es', g') \<Longrightarrow> length es' = length es"
proof (induction es arbitrary: j es')
  case Nil
  then show ?case by simp
next
  case (Cons e es)
  show ?case
  proof (cases j)
    case 0
    with Cons.prems show ?thesis by (auto split: sum.splits prod.splits)
  next
    case (Suc i)
    with Cons.prems Cons.IH show ?thesis by (auto split: sum.splits prod.splits)
  qed
qed

lemma select_first:
  "0 < k \<Longrightarrow> select_effect k None 0 g = Inr (Some (int (g 0 mod k)), \<lambda>n. g (Suc n))"
  by (simp add: select_effect_def randint_def)

lemma select_again:
  "2 \<le> k \<Longrightarrow> select_effect k (Some c) 0 g =
     Inr (Some (reselect c (int (g 0 mod (k - 1)))), \<lambda>n. g (Suc n))"
  by (simp add: select_effect_def randint_def nat_diff_distrib')

lemma select_held: "tick \<noteq> 0 \<Longrightarrow> select_effect k cur tick g = Inr (cur, g)"
  by (simp add: select_effect_def)

lemma Random_notes_state:
  assumes "es \<noteq> []" and "notes_effect (Random es cur) tick g = Inr (v, e', g')"
  shows "\<exists>es' c' g1. e' = Random es' (Some c') \<and> length es' = length es \<and>
           select_effect (length es) cur tick g = Inr (Some c', g1)"
  using assms
  by (auto split: sum.splits prod.splits option.splits if_splits dest: notes_at_length)

text \<open>
  C8: for a \<open>Random\<close> over \<open>k \<ge> 2\<close> children that holds the index \<open>c\<close>, the next
  evaluation at tick 0 holds an index of \<open>[0, k)\<close> other than \<open>c\<close>; the new index is
  \<open>reselect c d\<close> for the draw \<open>d\<close> of \<open>randint 0 (k - 2)\<close>, and \<open>reselect c\<close>
  maps the \<open>k - 1\<close> draws one-to-one onto the indices other than \<open>c\<close>, so each of
  them comes from exactly one draw. The first selection is the draw of
  \<open>randint 0 (k - 1)\<close> itself, any index of \<open>[0, k)\<close>. At a tick other than 0 the held
  index stays.
\<close>

theorem random_choice_no_repeat:
  assumes "2 \<le> length es" and "0 \<le> c" and "c < int (length es)"
  shows
    "select_effect (length es) None 0 g = Inr (Some (int (g 0 mod length es)), \<lambda>n. g (Suc n)) \<and>
     select_effect (length es) (Some c) 0 g =
       Inr (Some (reselect c (int (g 0 mod (length es - 1)))), \<lambda>n. g (Suc n)) \<and>
     bij_betw (reselect c) {0..int (length es) - 2} ({0..int (length es) - 1} - {c}) \<and>
     (\<forall>v e' g'. notes_effect (Random es (Some c)) 0 g = Inr (v, e', g') \<longrightarrow>
        (\<exists>es' c'. e' = Random es' (Some c') \<and> length es' = length es \<and>
           c' \<noteq> c \<and> 0 \<le> c' \<and> c' < int (length es))) \<and>
     (\<forall>v e' g'. notes_effect (Random es None) 0 g = Inr (v, e', g') \<longrightarrow>
        (\<exists>es' c'. e' = Random es' (Some c') \<and> length es' = length es \<and>
           0 \<le> c' \<and> c' < int (length es))) \<and>
     (\<forall>tick v e' g'. tick \<noteq> 0 \<and> notes_effect (Random es (Some c)) tick g = Inr (v, e', g') \<longrightarrow>
        (\<exists>es'. e' = Random es' (Some c) \<and> length es' = length es))"
proof (intro conjI allI impI)
  from assms(1) have k0: "0 < length es" and ne: "es \<noteq> []" by auto
  show first: "select_effect (length es) None 0 g =
      Inr (Some (int (g 0 mod length es)), \<lambda>n. g (Suc n))"
    using k0 by (rule select_first)
  show again: "select_effect (length es) (Some c) 0 g =
      Inr (Some (reselect c (int (g 0 mod (length es - 1)))), \<lambda>n. g (Suc n))"
    using assms(1) by (rule select_again)
  show bij: "bij_betw (reselect c) {0..int (length es) - 2} ({0..int (length es) - 1} - {c})"
    using assms(2,3) by (rule reselect_bij)
  have draw: "int (g 0 mod (length es - 1)) \<in> {0..int (length es) - 2}"
  proof -
    define m where "m = g 0 mod (length es - 1)"
    have "m < length es - 1" unfolding m_def using assms(1) by simp
    then have "0 \<le> int m \<and> int m \<le> int (length es) - 2" using assms(1) by linarith
    then show ?thesis unfolding m_def by simp
  qed
  {
    fix v e' g'
    assume r: "notes_effect (Random es (Some c)) 0 g = Inr (v, e', g')"
    from Random_notes_state [OF ne r] again
    obtain es' where e': "e' = Random es' (Some (reselect c (int (g 0 mod (length es - 1)))))"
      and len: "length es' = length es" by auto
    from bij draw have "reselect c (int (g 0 mod (length es - 1))) \<in> {0..int (length es) - 1} - {c}"
      unfolding bij_betw_def by blast
    with e' len
    show "\<exists>es' c'. e' = Random es' (Some c') \<and> length es' = length es \<and>
           c' \<noteq> c \<and> 0 \<le> c' \<and> c' < int (length es)"
      by auto
  }
  {
    fix v e' g'
    assume r: "notes_effect (Random es None) 0 g = Inr (v, e', g')"
    from Random_notes_state [OF ne r] first
    obtain es' where e': "e' = Random es' (Some (int (g 0 mod length es)))"
      and len: "length es' = length es" by auto
    define m where "m = g 0 mod length es"
    have "m < length es" unfolding m_def using k0 by simp
    then have "0 \<le> int m \<and> int m < int (length es)" by linarith
    with e' len
    show "\<exists>es' c'. e' = Random es' (Some c') \<and> length es' = length es \<and>
           0 \<le> c' \<and> c' < int (length es)"
      unfolding m_def by blast
  }
  {
    fix tick v e' g'
    assume "tick \<noteq> 0 \<and> notes_effect (Random es (Some c)) tick g = Inr (v, e', g')"
    then have t: "tick \<noteq> 0" and r: "notes_effect (Random es (Some c)) tick g = Inr (v, e', g')"
      by simp_all
    from Random_notes_state [OF ne r] select_held [OF t, of "length es" "Some c" g]
    show "\<exists>es'. e' = Random es' (Some c) \<and> length es' = length es" by auto
  }
qed

theorem random_choice_no_repeat_witness:
  "select_effect 2 None 0 (\<lambda>n. 0) = Inr (Some 0, \<lambda>n. 0) \<and>
   select_effect 2 (Some 0) 0 (\<lambda>n. 0) = Inr (Some 1, \<lambda>n. 0) \<and>
   notes_effect (Random [Note (0, 0) (Palette 1), Note (1, 1) (Palette 2)] (Some 0)) 0 (\<lambda>n. 0) =
     Inr (NoteList [((1, 1), Palette 2)],
          Random [Note (0, 0) (Palette 1), Note (1, 1) (Palette 2)] (Some 1), \<lambda>n. 0)"
  using random_choice_no_repeat
    [of "[Note (0, 0) (Palette 1), Note (1, 1) (Palette 2)]" 0 "\<lambda>n. 0"]
  by (simp add: select_effect_def randint_def reselect_def py_index_def)

section \<open>Properties of the render engine\<close>

lemma draw_note_length: "length (draw_note b n) = length b"
  by (simp add: draw_note_def Let_def)

lemma draw_notes_length: "length (draw_notes b ns) = length b"
  unfolding draw_notes_def by (induction ns arbitrary: b) (simp_all add: draw_note_length)

lemma draw_note_dropped:
  "midi_note_of (fst n) < 0 \<or> int (length b) \<le> midi_note_of (fst n) \<Longrightarrow> draw_note b n = b"
  by (auto simp: draw_note_def Let_def)

lemma addressable_midi_note:
  "addressable p \<Longrightarrow> 0 \<le> midi_note_of p \<and> midi_note_of p < 100"
  by (auto simp: addressable_def midi_note_of_def)

lemma draw_note_addressable:
  "addressable (fst n) \<Longrightarrow> length b = 100 \<Longrightarrow>
   draw_note b n = b[nat (midi_note_of (fst n)) := snd n]"
  using addressable_midi_note [of "fst n"] by (simp add: draw_note_def Let_def)

text \<open>
  C1: a note whose position is outside \<open>x, y \<in> [-1, 8]\<close> should leave the buffer as it
  is. \<^verbatim>\<open>draw_effect\<close> tests the index \<open>y * 10 + x + 11\<close> against the bounds of
  the buffer, not \<open>x\<close> and \<open>y\<close>: the position \<open>(9, 0)\<close> has the index 20 of the
  position \<open>(-1, 1)\<close> and is written into that cell.
\<close>

theorem draw_wraps_to_next_row:
  "\<not> addressable (9, 0) \<and> addressable (-1, 1) \<and>
   midi_note_of (9, 0) = midi_note_of (-1, 1) \<and>
   (\<exists>lp e g'. draw_effect Launchpad_init (Note (9, 0) (Palette 5)) 0 g = Inr (lp, e, g') \<and>
      buf lp ! nat (midi_note_of (-1, 1)) = Palette 5 \<and>
      buf lp \<noteq> buf Launchpad_init)"
  apply (simp add: addressable_def draw_effect_def Launchpad_init_def draw_notes_def
      draw_note_def midi_note_of_def)
  apply (rule notI)
  apply (drule arg_cong [where f = "\<lambda>b. b ! 20"])
  apply simp
  done

lemma message_of_Palette:
  "message_of n (Palette v) = (if data_byte n \<and> data_byte v then Inr (Note_on n v) else Inl ValueError)"
  by (simp add: mido_note_on_def)

lemma message_of_RGB:
  "brightness_of_compon r = Inr x \<Longrightarrow> brightness_of_compon g = Inr y \<Longrightarrow>
   brightness_of_compon b = Inr z \<Longrightarrow>
   message_of n (RGB r g b) =
     (if data_byte n then Inr (Sysex [0, 32, 41, 2, 16, 11, n, x, y, z]) else Inl ValueError)"
  by (auto simp: rgb_message_def mido_sysex_def data_byte_def dest!: brightness_bounds)

lemma message_cell_message_of: "message_of n c = Inr m \<Longrightarrow> message_cell m = n"
  by (cases c)
    (auto simp: rgb_message_def mido_note_on_def mido_sysex_def split: sum.splits if_splits)

lemma write_buf_from_sends:
  "\<forall>k < length ps. py_ne (fst (ps ! k)) (snd (ps ! k)) \<longrightarrow>
      (\<exists>m. message_of (int (i + k)) (fst (ps ! k)) = Inr m) \<Longrightarrow>
   write_buf_from i ps =
     (map (\<lambda>k. projr (message_of (int (i + k)) (fst (ps ! k))))
        (filter (\<lambda>k. py_ne (fst (ps ! k)) (snd (ps ! k))) [0..<length ps]), None)"
proof (induction ps arbitrary: i)
  case Nil
  then show ?case by simp
next
  case (Cons p ps)
  obtain c b where p: "p = (c, b)" by (cases p)
  have up: "[0..<Suc (length ps)] = 0 # map Suc [0..<length ps]"
    by (simp add: upt_conv_Cons map_Suc_upt del: upt_Suc)
  have rest: "\<forall>k < length ps. py_ne (fst (ps ! k)) (snd (ps ! k)) \<longrightarrow>
      (\<exists>m. message_of (int (Suc i + k)) (fst (ps ! k)) = Inr m)"
  proof (intro allI impI)
    fix k assume "k < length ps" "py_ne (fst (ps ! k)) (snd (ps ! k))"
    with Cons.prems [rule_format, of "Suc k"] show "\<exists>m. message_of (int (Suc i + k)) (fst (ps ! k)) = Inr m"
      by simp
  qed
  note IH = Cons.IH [OF rest]
  show ?case
  proof (cases "py_ne c b")
    case True
    with Cons.prems [rule_format, of 0] p obtain m where m: "message_of (int i) c = Inr m"
      by auto
    with True show ?thesis
      by (simp add: p up IH filter_map comp_def add.left_commute del: upt_Suc)
  next
    case False
    then show ?thesis
      by (simp add: p up IH filter_map comp_def add.left_commute del: upt_Suc)
  qed
qed

lemma count_cells:
  "distinct js \<Longrightarrow> \<forall>j \<in> set js. message_cell (f j) = int j \<Longrightarrow>
   length (filter (\<lambda>m. message_cell m = int k) (map f js)) = (if k \<in> set js then 1 else 0)"
  by (induction js) auto

lemma message_of_encodable:
  "(\<exists>m. message_of n c = Inr m) = (data_byte n \<and> encodable c)"
proof (cases c)
  case (Palette v)
  then show ?thesis by (simp add: mido_note_on_def)
next
  case (RGB r g b)
  show ?thesis
  proof (cases "encodable c")
    case True
    with RGB obtain x y z where xyz: "brightness_of_compon r = Inr x"
      "brightness_of_compon g = Inr y" "brightness_of_compon b = Inr z"
      by (cases "brightness_of_compon r"; cases "brightness_of_compon g";
          cases "brightness_of_compon b") auto
    from message_of_RGB [OF xyz, of n] RGB True show ?thesis by auto
  next
    case False
    with RGB show ?thesis
      by (auto simp: rgb_message_def split: sum.splits)
  qed
qed

lemma write_buf_from_raises:
  "j < length ps \<Longrightarrow> py_ne (fst (ps ! j)) (snd (ps ! j)) \<Longrightarrow>
   message_of (int (i + j)) (fst (ps ! j)) = Inl err \<Longrightarrow>
   \<forall>k < j. py_ne (fst (ps ! k)) (snd (ps ! k)) \<longrightarrow>
      (\<exists>m. message_of (int (i + k)) (fst (ps ! k)) = Inr m) \<Longrightarrow>
   write_buf_from i ps =
     (map (\<lambda>k. projr (message_of (int (i + k)) (fst (ps ! k))))
        (filter (\<lambda>k. py_ne (fst (ps ! k)) (snd (ps ! k))) [0..<j]), Some err)"
proof (induction ps arbitrary: i j)
  case Nil
  then show ?case by simp
next
  case (Cons p ps)
  obtain c b where p: "p = (c, b)" by (cases p)
  show ?case
  proof (cases j)
    case 0
    with Cons.prems p show ?thesis by simp
  next
    case (Suc j')
    have up: "[0..<Suc j'] = 0 # map Suc [0..<j']"
      by (simp add: upt_conv_Cons map_Suc_upt del: upt_Suc)
    from Cons.prems Suc have a: "j' < length ps" "py_ne (fst (ps ! j')) (snd (ps ! j'))"
      "message_of (int (Suc i + j')) (fst (ps ! j')) = Inl err"
      by simp_all
    have rest: "\<forall>k < j'. py_ne (fst (ps ! k)) (snd (ps ! k)) \<longrightarrow>
        (\<exists>m. message_of (int (Suc i + k)) (fst (ps ! k)) = Inr m)"
    proof (intro allI impI)
      fix k assume "k < j'" "py_ne (fst (ps ! k)) (snd (ps ! k))"
      with Cons.prems(4) [rule_format, of "Suc k"] Suc
      show "\<exists>m. message_of (int (Suc i + k)) (fst (ps ! k)) = Inr m" by simp
    qed
    note IH = Cons.IH [OF a rest]
    show ?thesis
    proof (cases "py_ne c b")
      case True
      with Cons.prems(4) [rule_format, of 0] p Suc obtain m where "message_of (int i) c = Inr m"
        by auto
      with True show ?thesis
        by (simp add: p Suc up IH filter_map comp_def add.left_commute del: upt_Suc)
    next
      case False
      then show ?thesis
        by (simp add: p Suc up IH filter_map comp_def add.left_commute del: upt_Suc)
    qed
  qed
qed

lemma zip_cells:
  assumes "length b = length bb"
  shows "filter (\<lambda>k. py_ne (fst (zip b bb ! k)) (snd (zip b bb ! k))) [0..<length b] =
         filter (\<lambda>k. py_ne (b ! k) (bb ! k)) [0..<length b]"
    and "map (\<lambda>k. projr (message_of (int k) (fst (zip b bb ! k))))
           (filter (\<lambda>k. py_ne (b ! k) (bb ! k)) [0..<length b]) =
         map (\<lambda>k. projr (message_of (int k) (b ! k)))
           (filter (\<lambda>k. py_ne (b ! k) (bb ! k)) [0..<length b])"
  using assms by (auto intro!: filter_cong map_cong)

lemma write_buf_from_zip:
  assumes "length b = length bb"
    and "\<forall>k < length b. py_ne (b ! k) (bb ! k) \<longrightarrow> data_byte (int k) \<and> encodable (b ! k)"
  shows "write_buf_from 0 (zip b bb) =
     (map (\<lambda>k. projr (message_of (int k) (b ! k)))
        (filter (\<lambda>k. py_ne (b ! k) (bb ! k)) [0..<length b]), None)"
proof -
  have "\<forall>k < length (zip b bb). py_ne (fst (zip b bb ! k)) (snd (zip b bb ! k)) \<longrightarrow>
      (\<exists>m. message_of (int (0 + k)) (fst (zip b bb ! k)) = Inr m)"
    using assms by (simp add: message_of_encodable)
  from write_buf_from_sends [OF this] assms(1) zip_cells [OF assms(1)]
  show ?thesis by simp
qed

lemma write_buf_raises:
  assumes "length (buf lp) = length (back_buf lp)" and "j < length (buf lp)"
    and "py_ne (buf lp ! j) (back_buf lp ! j)"
    and "message_of (int j) (buf lp ! j) = Inl err"
    and "\<forall>k < j. py_ne (buf lp ! k) (back_buf lp ! k) \<longrightarrow>
           data_byte (int k) \<and> encodable (buf lp ! k)"
  shows "write_buf lp =
     (lp\<lparr>port := port lp @ map (\<lambda>k. projr (message_of (int k) (buf lp ! k)))
                (filter (\<lambda>k. py_ne (buf lp ! k) (back_buf lp ! k)) [0..<j])\<rparr>,
      Some err)"
proof -
  let ?ps = "zip (buf lp) (back_buf lp)"
  have a: "j < length ?ps" using assms(1,2) by simp
  have b: "py_ne (fst (?ps ! j)) (snd (?ps ! j))" using assms(1,2,3) by simp
  have c: "message_of (int (0 + j)) (fst (?ps ! j)) = Inl err" using assms(1,2,4) by simp
  have d: "\<forall>k < j. py_ne (fst (?ps ! k)) (snd (?ps ! k)) \<longrightarrow>
      (\<exists>m. message_of (int (0 + k)) (fst (?ps ! k)) = Inr m)"
    using assms(1,2,5) by (simp add: message_of_encodable)
  have e: "filter (\<lambda>k. py_ne (fst (?ps ! k)) (snd (?ps ! k))) [0..<j] =
           filter (\<lambda>k. py_ne (buf lp ! k) (back_buf lp ! k)) [0..<j]"
    using assms(1,2) by (auto intro!: filter_cong)
  have f: "map (\<lambda>k. projr (message_of (int k) (fst (?ps ! k))))
             (filter (\<lambda>k. py_ne (buf lp ! k) (back_buf lp ! k)) [0..<j]) =
           map (\<lambda>k. projr (message_of (int k) (buf lp ! k)))
             (filter (\<lambda>k. py_ne (buf lp ! k) (back_buf lp ! k)) [0..<j])"
    using assms(1,2) by (auto intro!: map_cong)
  from write_buf_from_raises [OF a b c d] e f show ?thesis
    by (simp add: write_buf_def)
qed

lemma play_raises_on_intensity:
  "play Launchpad_init (Note (0, 0) (Palette 200)) g = Inl ValueError"
proof -
  let ?lp = "\<lparr>buf = (replicate 100 (Palette 0))[11 := Palette 200],
              back_buf = replicate 100 (Palette 0), port = []\<rparr>"
  have d: "draw_effect (reset_buf Launchpad_init) (Note (0, 0) (Palette 200)) 0 g =
      Inr (?lp, Note (0, 0) (Palette 200), g)"
    by (simp add: draw_effect_def reset_buf_def Launchpad_init_def draw_notes_def draw_note_def
        midi_note_of_def)
  have "\<exists>lp'. write_buf ?lp = (lp', Some ValueError)"
    using write_buf_raises [of ?lp 11 ValueError]
    by (simp add: mido_note_on_def data_byte_def)
  then obtain lp' where w: "write_buf ?lp = (lp', Some ValueError)" ..
  show ?thesis by (simp add: play_def d w)
qed

text \<open>
  C5, as the specification states it: \<^verbatim>\<open>write_buf\<close> sends one message for every
  cell whose color differs from the previous one. \<^verbatim>\<open>mido.Message\<close> raises
  \<^verbatim>\<open>ValueError\<close> for a palette intensity outside \<open>0..127\<close>, which the engine does
  not clamp: the cell differs, no message is sent for it, and the session ends.
\<close>

theorem write_buf_raises_on_intensity:
  "py_ne (Palette 200) (Palette 0) \<and>
   write_buf \<lparr>buf = [Palette 200], back_buf = [Palette 0], port = []\<rparr> =
     (\<lparr>buf = [Palette 200], back_buf = [Palette 0], port = []\<rparr>, Some ValueError) \<and>
   write_buf_messages [Palette 200] [Palette 0] = [] \<and>
   play Launchpad_init (Note (0, 0) (Palette 200)) (\<lambda>n. 0) = Inl ValueError"
  by (simp add: write_buf_def write_buf_messages_def mido_note_on_def data_byte_def
      play_raises_on_intensity)

text \<open>
  C5, amended: for buffers of equal length in which every cell that differs has a
  note number in \<open>0..127\<close> and a color whose message can be built (a palette
  intensity in \<open>0..127\<close>, or RGB components whose scaling does not raise),
  \<^verbatim>\<open>write_buf\<close> raises nothing and sends, in the order of the cells, one message
  for each cell whose color in \<open>buf\<close> differs from its color in \<open>back_buf\<close> and
  nothing else: exactly one message addresses a cell that differs and none a cell that
  does not. The message of a palette cell is a \<open>Note_on\<close> with the intensity as
  velocity, the message of an RGB cell a \<open>Sysex\<close> with the three scaled components.
  The buffers are left as they are.
\<close>

theorem write_buf_emits_changes:
  assumes "length (buf lp) = length (back_buf lp)"
    and "\<forall>k < length (buf lp). py_ne (buf lp ! k) (back_buf lp ! k) \<longrightarrow>
           data_byte (int k) \<and> encodable (buf lp ! k)"
  shows
    "write_buf lp =
       (lp\<lparr>port := port lp @ map (\<lambda>k. projr (message_of (int k) (buf lp ! k)))
                  (filter (\<lambda>k. py_ne (buf lp ! k) (back_buf lp ! k)) [0..<length (buf lp)])\<rparr>,
        None) \<and>
     (\<forall>k < length (buf lp).
        length (filter (\<lambda>m. message_cell m = int k)
                  (write_buf_messages (buf lp) (back_buf lp))) =
          (if py_ne (buf lp ! k) (back_buf lp ! k) then 1 else 0)) \<and>
     (\<forall>n v. data_byte n \<and> data_byte v \<longrightarrow> message_of n (Palette v) = Inr (Note_on n v)) \<and>
     (\<forall>n r g b x y z. data_byte n \<and> brightness_of_compon r = Inr x \<and>
        brightness_of_compon g = Inr y \<and> brightness_of_compon b = Inr z \<longrightarrow>
        message_of n (RGB r g b) = Inr (Sysex [0, 32, 41, 2, 16, 11, n, x, y, z]))"
proof (intro conjI allI impI)
  note wf = write_buf_from_zip [OF assms]
  show "write_buf lp =
       (lp\<lparr>port := port lp @ map (\<lambda>k. projr (message_of (int k) (buf lp ! k)))
                  (filter (\<lambda>k. py_ne (buf lp ! k) (back_buf lp ! k)) [0..<length (buf lp)])\<rparr>,
        None)"
    by (simp add: write_buf_def wf)
  show "\<And>n v. data_byte n \<and> data_byte v \<Longrightarrow> message_of n (Palette v) = Inr (Note_on n v)"
    by (simp add: mido_note_on_def)
  show "\<And>n r g b x y z. data_byte n \<and> brightness_of_compon r = Inr x \<and>
        brightness_of_compon g = Inr y \<and> brightness_of_compon b = Inr z \<Longrightarrow>
        message_of n (RGB r g b) = Inr (Sysex [0, 32, 41, 2, 16, 11, n, x, y, z])"
    using message_of_RGB by auto
  fix k assume k: "k < length (buf lp)"
  let ?js = "filter (\<lambda>k. py_ne (buf lp ! k) (back_buf lp ! k)) [0..<length (buf lp)]"
  have cells: "\<forall>j \<in> set ?js. message_cell (projr (message_of (int j) (buf lp ! j))) = int j"
  proof
    fix j assume "j \<in> set ?js"
    with assms(2) have "data_byte (int j) \<and> encodable (buf lp ! j)" by simp
    then obtain m where m: "message_of (int j) (buf lp ! j) = Inr m"
      using message_of_encodable [of "int j" "buf lp ! j"] by blast
    then show "message_cell (projr (message_of (int j) (buf lp ! j))) = int j"
      using message_cell_message_of [OF m] by simp
  qed
  have "distinct ?js" by simp
  from count_cells [OF this cells, of k] k
  show "length (filter (\<lambda>m. message_cell m = int k)
                  (write_buf_messages (buf lp) (back_buf lp))) =
          (if py_ne (buf lp ! k) (back_buf lp ! k) then 1 else 0)"
    by (simp add: write_buf_messages_def wf)
qed

theorem write_buf_emits_changes_witness:
  "write_buf \<lparr>buf = [Palette 1, Palette 0, RGB (PyInt 1) (PyInt 0) (PyInt 0)],
              back_buf = [Palette 0, Palette 0, Palette 0], port = []\<rparr> =
     (\<lparr>buf = [Palette 1, Palette 0, RGB (PyInt 1) (PyInt 0) (PyInt 0)],
       back_buf = [Palette 0, Palette 0, Palette 0],
       port = [Note_on 0 1, Sysex [0, 32, 41, 2, 16, 11, 2, 63, 0, 0]]\<rparr>, None)"
  using write_buf_emits_changes
    [of "\<lparr>buf = [Palette 1, Palette 0, RGB (PyInt 1) (PyInt 0) (PyInt 0)],
          back_buf = [Palette 0, Palette 0, Palette 0], port = []\<rparr>"]
  by (simp add: write_buf_def rgb_message_def mido_note_on_def mido_sysex_def data_byte_def
      brightness_of_compon_def MAX_BRIGHTNESS_def)

lemma write_buf_buffers:
  "write_buf lp = (lp', r) \<Longrightarrow> buf lp' = buf lp \<and> back_buf lp' = back_buf lp"
  by (auto simp: write_buf_def split: prod.splits)

lemma Launchpad_init_buffers:
  "length (buf Launchpad_init) = 100 \<and> length (back_buf Launchpad_init) = 100"
  by (simp add: Launchpad_init_def)

lemma play_ticks_buffers:
  "length (buf lp) = length (back_buf lp) \<Longrightarrow> play_ticks ts lp e g = Inr (lp', e', g') \<Longrightarrow>
   length (buf lp') = length (buf lp) \<and> length (back_buf lp') = length (buf lp)"
proof (induction ts arbitrary: lp e g)
  case Nil
  then show ?case by simp
next
  case (Cons i ts)
  from Cons.prems(2) obtain lp1 e1 g1 lp2
    where d: "draw_effect (reset_buf lp) e i g = Inr (lp1, e1, g1)"
      and w: "write_buf lp1 = (lp2, None)"
      and r: "play_ticks ts lp2 e1 g1 = Inr (lp', e', g')"
    by (auto split: sum.splits prod.splits option.splits)
  from d Cons.prems(1) have l1: "length (buf lp1) = length (buf lp)"
      "length (back_buf lp1) = length (buf lp)"
    by (auto simp: draw_effect_def reset_buf_def draw_notes_length split: sum.splits pyval.splits)
  from write_buf_buffers [OF w] l1 have l2: "length (buf lp2) = length (buf lp)"
      "length (back_buf lp2) = length (buf lp)" by simp_all
  then have "length (buf lp2) = length (back_buf lp2)" by simp
  from Cons.IH [OF this r] l2 show ?case by simp
qed

lemma write_buf_palette:
  assumes "length (buf lp) = length (back_buf lp)" and "length (buf lp) \<le> 128"
    and "\<forall>c \<in> set (buf lp). encodable c"
  shows "\<exists>lp'. write_buf lp = (lp', None)"
proof -
  have "\<forall>k < length (buf lp). py_ne (buf lp ! k) (back_buf lp ! k) \<longrightarrow>
           data_byte (int k) \<and> encodable (buf lp ! k)"
    using assms(2,3) by (auto simp: data_byte_def)
  from write_buf_from_zip [OF assms(1) this] show ?thesis by (simp add: write_buf_def)
qed

lemma draw_effect_raises:
  "notes_effect e tick g = Inl err \<Longrightarrow> draw_effect lp e tick g = Inl err"
  by (simp add: draw_effect_def)

text \<open>
  C4: \<^verbatim>\<open>notes\<close> and \<^verbatim>\<open>length\<close> should never raise on a tick in
  \<open>[0, length)\<close>, however often a \<open>Random\<close> is evaluated at tick 0. A \<open>Random\<close> over
  a single child raises \<^verbatim>\<open>ValueError\<close> at its second evaluation at tick 0, where
  \<^verbatim>\<open>random.randint(0, -1)\<close> has an empty range: playing
  \<^verbatim>\<open>Loop(Random(Note((0, 0), 1)), 2)\<close> raises at tick 1.
\<close>

theorem random_single_child_raises:
  "notes_effect (Random [e] (Some c)) 0 g = Inl ValueError \<and>
   notes_effect (Random_init [Note (0, 0) (Palette 1)]) 0 g =
     Inr (NoteList [((0, 0), Palette 1)], Random [Note (0, 0) (Palette 1)] (Some 0),
          \<lambda>n. g (Suc n)) \<and>
   length_effect (Loop (Random_init [Note (0, 0) (Palette 1)]) 2) = 2 \<and>
   play Launchpad_init (Loop (Random_init [Note (0, 0) (Palette 1)]) 2) g = Inl ValueError"
proof (intro conjI)
  let ?n = "Note (0, 0) (Palette 1)"
  show again: "notes_effect (Random [e] (Some c)) 0 g = Inl ValueError" for e c g
    by (simp add: select_effect_def randint_def)
  show first: "notes_effect (Random_init [?n]) 0 g =
     Inr (NoteList [((0, 0), Palette 1)], Random [?n] (Some 0), \<lambda>n. g (Suc n))" for g
    by (simp add: Random_init_def pad_effects_def select_effect_def randint_def py_index_def)
  show len: "length_effect (Loop (Random_init [?n]) 2) = 2"
    by (simp add: Random_init_def pad_effects_def)
  let ?lp = "\<lparr>buf = (replicate 100 (Palette 0))[11 := Palette 1],
              back_buf = replicate 100 (Palette 0), port = []\<rparr>"
  have d: "draw_effect (reset_buf Launchpad_init) (Loop (Random_init [?n]) 2) 0 g =
      Inr (?lp, Loop (Random [?n] (Some 0)) 2, \<lambda>n. g (Suc n))"
    using first [of g]
    by (simp add: draw_effect_def reset_buf_def Launchpad_init_def draw_notes_def draw_note_def
        midi_note_of_def Random_init_def pad_effects_def)
  have "\<forall>c \<in> set (buf ?lp). encodable c"
    using set_update_subset_insert [of "replicate 100 (Palette 0)" 11 "Palette 1"]
    by (auto simp: data_byte_def)
  then have "\<exists>lp'. write_buf ?lp = (lp', None)"
    by (intro write_buf_palette) simp_all
  then obtain lp' where w: "write_buf ?lp = (lp', None)" ..
  have "notes_effect (Loop (Random [?n] (Some 0)) 2) 1 (\<lambda>n. g (Suc n)) = Inl ValueError"
    using again [of ?n 0 "\<lambda>n. g (Suc n)"] by simp
  then have t1: "draw_effect (reset_buf lp') (Loop (Random [?n] (Some 0)) 2) 1 (\<lambda>n. g (Suc n)) =
      Inl ValueError"
    by (rule draw_effect_raises)
  show "play Launchpad_init (Loop (Random_init [?n]) 2) g = Inl ValueError"
    unfolding play_def len by (simp add: upto_rec1 d w t1)
qed

section \<open>Properties of the note store\<close>

lemma store_frame:
  "RandomColor_notes_store h refs low high g = (res, h', g') \<Longrightarrow>
   length h \<le> length h' \<and> (\<forall>a < length h. h' ! a = h ! a) \<and>
   (\<forall>lst. res = Inr lst \<longrightarrow>
      length lst = length refs \<and> distinct lst \<and> (\<forall>r \<in> set lst. length h \<le> r \<and> r < length h'))"
proof (induction refs arbitrary: h g res h' g')
  case Nil
  then show ?case by auto
next
  case (Cons r rest)
  let ?h1 = "h @ [h ! r]"
  show ?case
  proof (cases "randint low high g")
    case (Inl err)
    with Cons.prems show ?thesis
      by (auto simp: deepcopy_def nth_append)
  next
    case (Inr vg)
    obtain v g1 where vg: "vg = (v, g1)" by (cases vg)
    let ?h2 = "set_color ?h1 (length h) (Palette v)"
    obtain res2 h2 g2 where rec: "RandomColor_notes_store ?h2 rest low high g1 = (res2, h2, g2)"
      by (cases "RandomColor_notes_store ?h2 rest low high g1") auto
    have len2: "length ?h2 = Suc (length h)" by (simp add: set_color_def)
    have old2: "\<forall>a < length h. ?h2 ! a = h ! a" by (simp add: set_color_def nth_append)
    from Cons.IH [OF rec] len2
    have le: "Suc (length h) \<le> length h2"
      and fr: "\<forall>a < Suc (length h). h2 ! a = ?h2 ! a"
      and fresh: "\<forall>lst. res2 = Inr lst \<longrightarrow>
         length lst = length rest \<and> distinct lst \<and> (\<forall>r \<in> set lst. Suc (length h) \<le> r \<and> r < length h2)"
      by simp_all
    from Cons.prems Inr vg rec have h': "h' = h2"
      and res: "res = (case res2 of Inl err \<Rightarrow> Inl err | Inr lst \<Rightarrow> Inr (length h # lst))"
      by (auto simp: deepcopy_def split: sum.splits)
    from le h' have "length h \<le> length h'" by simp
    moreover from fr old2 h' have "\<forall>a < length h. h' ! a = h ! a" by simp
    moreover have "\<forall>lst. res = Inr lst \<longrightarrow>
      length lst = length (r # rest) \<and> distinct lst \<and> (\<forall>r \<in> set lst. length h \<le> r \<and> r < length h')"
    proof (intro allI impI)
      fix lst assume "res = Inr lst"
      with res obtain lst2 where r2: "res2 = Inr lst2" and lst: "lst = length h # lst2"
        by (cases res2) auto
      from fresh r2 have f: "length lst2 = length rest" "distinct lst2"
        "\<forall>r \<in> set lst2. Suc (length h) \<le> r \<and> r < length h2" by simp_all
      from f(3) have "length h \<notin> set lst2" by auto
      with f lst le h' show "length lst = length (r # rest) \<and> distinct lst \<and>
          (\<forall>r \<in> set lst. length h \<le> r \<and> r < length h')"
        by auto
    qed
    ultimately show ?thesis by blast
  qed
qed

lemma store_refines_recolor:
  "\<forall>r \<in> set refs. r < length h \<Longrightarrow>
   RandomColor_notes_store h refs low high g = (res, h', g') \<Longrightarrow>
   recolor (map ((!) h) refs) low high g =
     (case res of Inl err \<Rightarrow> Inl err | Inr lst \<Rightarrow> Inr (map ((!) h') lst, g'))"
proof (induction refs arbitrary: h g res h' g')
  case Nil
  then show ?case by auto
next
  case (Cons r rest)
  let ?h1 = "h @ [h ! r]"
  show ?case
  proof (cases "randint low high g")
    case (Inl err)
    with Cons.prems show ?thesis by (auto simp: deepcopy_def)
  next
    case (Inr vg)
    obtain v g1 where vg: "vg = (v, g1)" by (cases vg)
    let ?h2 = "set_color ?h1 (length h) (Palette v)"
    obtain res2 h2 g2 where rec: "RandomColor_notes_store ?h2 rest low high g1 = (res2, h2, g2)"
      by (cases "RandomColor_notes_store ?h2 rest low high g1") auto
    have len2: "length ?h2 = Suc (length h)" by (simp add: set_color_def)
    have new2: "?h2 ! length h = (fst (h ! r), Palette v)" by (simp add: set_color_def)
    from Cons.prems(1) have valid2: "\<forall>x \<in> set rest. x < length ?h2" using len2 by auto
    from Cons.prems(1) have same: "map ((!) ?h2) rest = map ((!) h) rest"
      by (auto simp: set_color_def nth_append)
    from store_frame [OF rec] len2 new2 have kept: "h2 ! length h = (fst (h ! r), Palette v)"
      by auto
    from Cons.prems(2) Inr vg rec have h': "h' = h2" and g': "g' = g2"
      and res: "res = (case res2 of Inl err \<Rightarrow> Inl err | Inr lst \<Rightarrow> Inr (length h # lst))"
      by (auto simp: deepcopy_def split: sum.splits)
    from Cons.IH [OF valid2 rec] same
    have "recolor (map ((!) h) rest) low high g1 =
       (case res2 of Inl err \<Rightarrow> Inl err | Inr lst \<Rightarrow> Inr (map ((!) h2) lst, g2))"
      by simp
    with Inr vg res h' g' kept show ?thesis
      by (cases res2) simp_all
  qed
qed

text \<open>
  C10: the loop of \<^verbatim>\<open>RandomColor.notes\<close> changes no \<^verbatim>\<open>Note\<close> object that
  existed before the call, whether it returns or raises: the notes the child returned
  read as before. The notes it returns are new objects, none of them one of the
  child's, and their values are those of \<open>recolor\<close>. In particular the notes a
  \<open>Rectangle\<close> keeps read the same at any later tick.
\<close>

theorem random_color_copies_notes:
  assumes "\<forall>r \<in> set refs. r < length h"
    and "RandomColor_notes_store h refs low high g = (res, h', g')"
  shows
    "(\<forall>a < length h. h' ! a = h ! a) \<and>
     map ((!) h') refs = map ((!) h) refs \<and>
     (\<forall>lst. res = Inr lst \<longrightarrow>
        length lst = length refs \<and>
        (\<forall>r \<in> set lst. length h \<le> r \<and> r < length h') \<and>
        set lst \<inter> set refs = {} \<and>
        recolor (map ((!) h) refs) low high g = Inr (map ((!) h') lst, g')) \<and>
     (\<forall>cached tick tick'. refs = Rectangle_notes_store cached tick \<longrightarrow>
        map ((!) h') (Rectangle_notes_store cached tick') =
        map ((!) h) (Rectangle_notes_store cached tick'))"
proof -
  note fr = store_frame [OF assms(2)]
  from fr have old: "\<forall>a < length h. h' ! a = h ! a" by blast
  with assms(1) have same: "map ((!) h') refs = map ((!) h) refs" by simp
  have fresh: "\<forall>lst. res = Inr lst \<longrightarrow>
        length lst = length refs \<and>
        (\<forall>r \<in> set lst. length h \<le> r \<and> r < length h') \<and>
        set lst \<inter> set refs = {} \<and>
        recolor (map ((!) h) refs) low high g = Inr (map ((!) h') lst, g')"
  proof (intro allI impI)
    fix lst assume r: "res = Inr lst"
    with fr have a: "length lst = length refs"
      and b: "\<forall>r \<in> set lst. length h \<le> r \<and> r < length h'" by blast+
    from b assms(1) have c: "set lst \<inter> set refs = {}" by fastforce
    from store_refines_recolor [OF assms] r
    have d: "recolor (map ((!) h) refs) low high g = Inr (map ((!) h') lst, g')" by simp
    from a b c d show "length lst = length refs \<and>
        (\<forall>r \<in> set lst. length h \<le> r \<and> r < length h') \<and>
        set lst \<inter> set refs = {} \<and>
        recolor (map ((!) h) refs) low high g = Inr (map ((!) h') lst, g')" by blast
  qed
  from same have "\<forall>cached tick tick'. refs = Rectangle_notes_store cached tick \<longrightarrow>
        map ((!) h') (Rectangle_notes_store cached tick') =
        map ((!) h) (Rectangle_notes_store cached tick')"
    by (simp add: Rectangle_notes_store_def)
  with old same fresh show ?thesis by blast
qed

theorem random_color_copies_notes_witness:
  "RandomColor_notes_store [((0, 0), Palette 5), ((0, 1), Palette 5)]
     (Rectangle_notes_store [0, 1] 0) 7 7 (\<lambda>n. 0) =
     (Inr [2, 3],
      [((0, 0), Palette 5), ((0, 1), Palette 5), ((0, 0), Palette 7), ((0, 1), Palette 7)],
      \<lambda>n. 0) \<and>
   map ((!) [((0, 0), Palette 5), ((0, 1), Palette 5), ((0, 0), Palette 7), ((0, 1), Palette 7)])
     (Rectangle_notes_store [0, 1] 0) = [((0, 0), Palette 5), ((0, 1), Palette 5)]"
proof -
  have run: "RandomColor_notes_store [((0, 0), Palette 5), ((0, 1), Palette 5)]
     [0, 1] 7 7 (\<lambda>n. 0) =
     (Inr [2, 3],
      [((0, 0), Palette 5), ((0, 1), Palette 5), ((0, 0), Palette 7), ((0, 1), Palette 7)],
      \<lambda>n. 0)"
    by (simp add: deepcopy_def set_color_def randint_def)
  have valid: "\<forall>r \<in> set [0, 1 :: nat]. r < length [((0, 0), Palette 5), ((0 :: int, 1 :: int), Palette 5)]"
    by simp
  from random_color_copies_notes [OF valid run] run show ?thesis
    by (simp add: Rectangle_notes_store_def)
qed

end
